theory Spec2Isabelle
  imports Complex_Main "HOL-Library.Word"
begin

unbundle bit_operations_syntax

section \<open>MIDI byte-stream decoder (AlsaMidiDeviceImpl)\<close>

text \<open>
  The per-period event sink of the driver: \<open>midiEvents\<close> is a vector of
  \<open>MAX_MIDI_EVENT\<close> events, and the constructor of \<open>AlsaDriverImpl\<close> points the
  \<open>buffer\<close> field of event \<open>i\<close> at offset \<open>i * MAX_MIDI_EVENT_SIZE\<close> of the byte
  vector \<open>midiEventMemory\<close>. A pointer into that vector is modelled by its offset.
\<close>

record MidiEvent =
  time_ev :: "32 word"
  size_ev :: int
  buffer_ev :: nat

record event_sink =
  events :: "MidiEvent list"
  memory :: "8 word list"

definition MAX_MIDI_EVENT_SIZE :: nat where
  "MAX_MIDI_EVENT_SIZE = 3"

definition MAX_MIDI_EVENT :: nat where
  "MAX_MIDI_EVENT = 4 * 1024"

text \<open>The sink as the constructor of \<open>AlsaDriverImpl\<close> leaves it.\<close>

definition new_sink :: event_sink where
  "new_sink =
     \<lparr>events = map (\<lambda>i. \<lparr>time_ev = 0, size_ev = 0, buffer_ev = i * MAX_MIDI_EVENT_SIZE\<rparr>)
                  [0..<MAX_MIDI_EVENT],
      memory = replicate (MAX_MIDI_EVENT * MAX_MIDI_EVENT_SIZE) 0\<rparr>"

text \<open>
  The decoder state of one MIDI endpoint. \<open>data0\<close> and \<open>data1\<close> are \<open>size_t\<close> in the
  source but only ever hold a byte read from the input and are passed on as \<open>uint8_t\<close>,
  so they are bytes here. \<open>pInputEventBuffer\<close> is the sink the caller handed to
  \<open>ReadMidiEvents\<close> by reference.
\<close>

record AlsaMidiDeviceImpl =
  runningStatus :: "8 word"
  dataLength :: int
  dataIndex :: int
  data0 :: "8 word"
  data1 :: "8 word"
  inputProcessingSysex :: bool
  inputSysexBufferCount :: nat
  inputSysexBuffer :: "8 word list"
  inputSampleFrame :: "32 word"
  inputEventBufferIndex :: nat
  pInputEventBuffer :: event_sink

text \<open>Member initialisers and constructor (\<open>inputSysexBuffer.resize(1024)\<close>).\<close>

definition new_device :: AlsaMidiDeviceImpl where
  "new_device =
     \<lparr>runningStatus = 0, dataLength = 0, dataIndex = 0, data0 = 0, data1 = 0,
      inputProcessingSysex = False, inputSysexBufferCount = 0,
      inputSysexBuffer = replicate 1024 0,
      inputSampleFrame = - 1, inputEventBufferIndex = 0,
      pInputEventBuffer = \<lparr>events = [], memory = []\<rparr>\<rparr>"

text \<open>\<open>Open\<close>, without the calls into the rawmidi library.\<close>

definition Open :: "AlsaMidiDeviceImpl \<Rightarrow> AlsaMidiDeviceImpl" where
  "Open s = s\<lparr>runningStatus := 0, inputProcessingSysex := False,
              inputSysexBufferCount := 0, dataIndex := 0, dataLength := 0\<rparr>"

definition sDataLength :: "int list" where
  "sDataLength = [0, 0, 0, 0, 0, 0, 0, 0, 2, 2, 2, 2, 1, 1, 1, - 1]"

definition GetDataLength :: "8 word \<Rightarrow> int" where
  "GetDataLength cc = sDataLength ! unat (drop_bit 4 cc)"

definition sizes :: "int list" where
  "sizes = [- 1, 1, 2, 1, - 1, - 1, 0, 0]"

definition GetSystemCommonLength :: "8 word \<Rightarrow> int" where
  "GetSystemCommonLength cc = sizes ! unat (drop_bit 4 cc AND 0x07)"

text \<open>
  \<open>MidiPut\<close>: the three bytes go to \<open>event.buffer[0..2]\<close>, that is to the event's
  slot of the shared byte vector. The \<open>assert\<close> on the event size is not a branch
  here (it is compiled out under \<open>NDEBUG\<close>); that its condition holds whenever an
  event is stored is proved below.
\<close>

definition MidiPut :: "8 word \<Rightarrow> 8 word \<Rightarrow> 8 word \<Rightarrow> AlsaMidiDeviceImpl \<Rightarrow> AlsaMidiDeviceImpl" where
  "MidiPut cc d0 d1 s =
     (if cc = 0 then s
      else if inputEventBufferIndex s \<ge> length (events (pInputEventBuffer s)) then s
      else
        let snk = pInputEventBuffer s;
            i = inputEventBufferIndex s;
            event = (events snk ! i)\<lparr>time_ev := inputSampleFrame s, size_ev := dataLength s + 1\<rparr>;
            p = buffer_ev event;
            mem = (memory snk)[p := cc, p + 1 := d0, p + 2 := d1]
        in s\<lparr>pInputEventBuffer := \<lparr>events = (events snk)[i := event], memory = mem\<rparr>,
             inputEventBufferIndex := i + 1\<rparr>)"

definition FlushSysex :: "AlsaMidiDeviceImpl \<Rightarrow> AlsaMidiDeviceImpl" where
  "FlushSysex s = s\<lparr>inputProcessingSysex := False\<rparr>"

text \<open>
  The body of the loop of \<open>ProcessInputBuffer\<close> for one byte. The test at the end of
  the body is \<open>emit_if_complete\<close>; \<open>continue\<close> skips it, and \<open>break\<close> leaves the loop.
\<close>

datatype loop_exit = Next | Break

definition emit_if_complete :: "AlsaMidiDeviceImpl \<Rightarrow> AlsaMidiDeviceImpl" where
  "emit_if_complete s =
     (if dataIndex s = dataLength s \<and> dataLength s \<ge> 0 \<and> runningStatus s \<noteq> 0
      then (MidiPut (runningStatus s) (data0 s) (data1 s) s)\<lparr>dataIndex := 0\<rparr>
      else s)"

definition process_byte :: "8 word \<Rightarrow> AlsaMidiDeviceImpl \<Rightarrow> loop_exit \<times> AlsaMidiDeviceImpl" where
  "process_byte v s =
     (if v \<ge> 0x80 then
        if v \<ge> 0xF0 then
          if v = 0xF0 then
            (Next, emit_if_complete
               (s\<lparr>inputProcessingSysex := True,
                  inputSysexBufferCount := 1,
                  inputSysexBuffer := (inputSysexBuffer s)[0 := 0xF0],
                  runningStatus := 0, dataLength := - 2, dataIndex := - 1\<rparr>))
          else if v \<ge> 0xF8 then (Next, s)
          else
            let s1 = FlushSysex s; len = GetSystemCommonLength v
            in if len = - 1 then (Break, s1)
               else (Next, emit_if_complete (s1\<lparr>runningStatus := v, dataLength := len, dataIndex := 0\<rparr>))
        else
          let s1 = FlushSysex s; len = GetDataLength v; s2 = s1\<lparr>runningStatus := v\<rparr>
          in if len = - 1 then (Next, emit_if_complete (s2\<lparr>dataLength := len, dataIndex := - 1\<rparr>))
             else (Next, emit_if_complete (s2\<lparr>dataLength := len, dataIndex := 0\<rparr>))
      else
        (Next, emit_if_complete
          (if inputProcessingSysex s then
             (if inputSysexBufferCount s \<noteq> length (inputSysexBuffer s)
              then s\<lparr>inputSysexBuffer := (inputSysexBuffer s)[inputSysexBufferCount s := v],
                     inputSysexBufferCount := inputSysexBufferCount s + 1\<rparr>
              else s)
           else if dataIndex s = 0 then s\<lparr>data0 := v, dataIndex := 1\<rparr>
           else if dataIndex s = 1 then s\<lparr>data1 := v, dataIndex := 2\<rparr>
           else s)))"

fun ProcessInputBuffer :: "8 word list \<Rightarrow> AlsaMidiDeviceImpl \<Rightarrow> AlsaMidiDeviceImpl" where
  "ProcessInputBuffer [] s = s"
| "ProcessInputBuffer (v # vs) s =
     (case process_byte v s of
        (Break, s') \<Rightarrow> s'
      | (Next, s') \<Rightarrow> ProcessInputBuffer vs s')"

text \<open>
  \<open>FillInputBuffer\<close> reads from the device until it reports \<open>-EAGAIN\<close>. The results
  of the successive \<open>snd_rawmidi_read\<close> calls before that are the input of the model:
  a chunk of bytes, or a negative error code, on which \<open>checkError\<close> throws.
\<close>

datatype rawmidi_read = Bytes "8 word list" | ReadError int

datatype midi_error = PiPedalStateException

fun FillInputBuffer :: "rawmidi_read list \<Rightarrow> AlsaMidiDeviceImpl \<Rightarrow> midi_error + AlsaMidiDeviceImpl" where
  "FillInputBuffer [] s = Inr s"
| "FillInputBuffer (ReadError e # rs) s = Inl PiPedalStateException"
| "FillInputBuffer (Bytes bs # rs) s = FillInputBuffer rs (ProcessInputBuffer bs s)"

text \<open>
  \<open>ReadMidiEvents\<close> returns the number of events added; the sink, passed by
  reference in the source, is returned with it.
\<close>

definition ReadMidiEvents ::
  "event_sink \<Rightarrow> nat \<Rightarrow> 32 word \<Rightarrow> rawmidi_read list \<Rightarrow> AlsaMidiDeviceImpl
     \<Rightarrow> midi_error + (nat \<times> event_sink \<times> AlsaMidiDeviceImpl)" where
  "ReadMidiEvents outputBuffer startIndex sampleFrame reads s =
     (case FillInputBuffer reads
             (s\<lparr>inputSampleFrame := sampleFrame, inputEventBufferIndex := startIndex,
                pInputEventBuffer := outputBuffer\<rparr>) of
        Inl e \<Rightarrow> Inl e
      | Inr s' \<Rightarrow> Inr (inputEventBufferIndex s' - startIndex, pInputEventBuffer s', s'))"

text \<open>The bytes of the \<open>i\<close>-th event of a sink, as a consumer reads them.\<close>

definition event_bytes :: "event_sink \<Rightarrow> nat \<Rightarrow> 8 word list" where
  "event_bytes snk i =
     (let e = events snk ! i
      in map (\<lambda>j. memory snk ! (buffer_ev e + j)) [0..<nat (size_ev e)])"

definition emitted :: "event_sink \<Rightarrow> nat \<Rightarrow> 8 word list list" where
  "emitted snk n = map (event_bytes snk) [0..<n]"

subsection \<open>Auxiliary notions for the proofs about the decoder\<close>

text \<open>What \<open>MidiPut\<close> does to the sink once the overrun check has passed.\<close>

definition store_event ::
  "event_sink \<Rightarrow> nat \<Rightarrow> 32 word \<Rightarrow> int \<Rightarrow> 8 word \<Rightarrow> 8 word \<Rightarrow> 8 word \<Rightarrow> event_sink" where
  "store_event snk i t sz cc d0 d1 =
     (let event = (events snk ! i)\<lparr>time_ev := t, size_ev := sz\<rparr>;
          p = buffer_ev event
      in \<lparr>events = (events snk)[i := event],
          memory = (memory snk)[p := cc, p + 1 := d0, p + 2 := d1]\<rparr>)"

text \<open>
  The layout the constructor of the driver establishes: event \<open>i\<close> owns the three
  bytes at offset \<open>3 * i\<close>, and no event claims more than its three bytes.
\<close>

definition sink_wf :: "event_sink \<Rightarrow> bool" where
  "sink_wf snk \<longleftrightarrow>
     length (events snk) = MAX_MIDI_EVENT \<and>
     length (memory snk) = MAX_MIDI_EVENT * MAX_MIDI_EVENT_SIZE \<and>
     (\<forall>i<MAX_MIDI_EVENT. buffer_ev (events snk ! i) = i * MAX_MIDI_EVENT_SIZE) \<and>
     (\<forall>i<MAX_MIDI_EVENT. size_ev (events snk ! i) \<le> 3)"

text \<open>The rest of the loop of \<open>ProcessInputBuffer\<close> after one pass through its body.\<close>

definition pib_cont :: "8 word list \<Rightarrow> loop_exit \<times> AlsaMidiDeviceImpl \<Rightarrow> AlsaMidiDeviceImpl" where
  "pib_cont vs r = (case r of (Break, s') \<Rightarrow> s' | (Next, s') \<Rightarrow> ProcessInputBuffer vs s')"

text \<open>The events of a \<open>ReadMidiEvents\<close> call, if it returned.\<close>

definition emitted_by ::
  "midi_error + nat \<times> event_sink \<times> AlsaMidiDeviceImpl \<Rightarrow> 8 word list list option" where
  "emitted_by r = (case r of Inl e \<Rightarrow> None | Inr (n, snk, s) \<Rightarrow> Some (emitted snk n))"

definition sysex_open :: "AlsaMidiDeviceImpl \<Rightarrow> bool" where
  "sysex_open s \<longleftrightarrow> inputProcessingSysex s \<and> runningStatus s = 0"

text \<open>
  Two decoder states that agree on everything except the SysEx accumulation buffer
  (\<open>inputSysexBuffer\<close>, \<open>inputSysexBufferCount\<close>).
\<close>

definition sysex_equiv :: "AlsaMidiDeviceImpl \<Rightarrow> AlsaMidiDeviceImpl \<Rightarrow> bool" where
  "sysex_equiv s t \<longleftrightarrow>
     runningStatus s = runningStatus t \<and> dataLength s = dataLength t \<and>
     dataIndex s = dataIndex t \<and> data0 s = data0 t \<and> data1 s = data1 t \<and>
     inputProcessingSysex s = inputProcessingSysex t \<and>
     inputSampleFrame s = inputSampleFrame t \<and>
     inputEventBufferIndex s = inputEventBufferIndex t \<and>
     pInputEventBuffer s = pInputEventBuffer t"


subsection \<open>The driver's side: \<open>ReadMidiData\<close> over all opened devices\<close>

text \<open>
  The part of \<open>AlsaDriverImpl\<close> that the MIDI path uses. \<open>new_driver n\<close> is the driver
  after its constructor and \<open>OpenMidi\<close> with \<open>n\<close> devices opened successfully. The audio
  loop sets \<open>midiEventCount\<close> to 0 at the start of a period and then calls
  \<open>ReadMidiData\<close> once or more; \<open>reads\<close> holds, per device, what its reads deliver.
\<close>

record midi_driver =
  midiEventCount :: nat
  midiEvents :: event_sink
  midiDevices :: "AlsaMidiDeviceImpl list"

definition new_driver :: "nat \<Rightarrow> midi_driver" where
  "new_driver n = \<lparr>midiEventCount = 0, midiEvents = new_sink, midiDevices = replicate n (Open new_device)\<rparr>"

fun ReadMidiData_loop ::
  "32 word \<Rightarrow> rawmidi_read list list \<Rightarrow> AlsaMidiDeviceImpl list \<Rightarrow> nat \<Rightarrow> event_sink
     \<Rightarrow> midi_error + (AlsaMidiDeviceImpl list \<times> nat \<times> event_sink)" where
  "ReadMidiData_loop audioFrame reads [] count snk = Inr ([], count, snk)"
| "ReadMidiData_loop audioFrame reads (dev # devs) count snk =
     (case ReadMidiEvents snk count audioFrame (case reads of [] \<Rightarrow> [] | r # _ \<Rightarrow> r) dev of
        Inl e \<Rightarrow> Inl e
      | Inr (nRead, snk', dev') \<Rightarrow>
          (case ReadMidiData_loop audioFrame (tl reads) devs (count + nRead) snk' of
             Inl e \<Rightarrow> Inl e
           | Inr (devs', count', snk'') \<Rightarrow> Inr (dev' # devs', count', snk'')))"

definition ReadMidiData :: "32 word \<Rightarrow> rawmidi_read list list \<Rightarrow> midi_driver \<Rightarrow> midi_error + midi_driver" where
  "ReadMidiData audioFrame reads d =
     (case ReadMidiData_loop audioFrame reads (midiDevices d) (midiEventCount d) (midiEvents d) of
        Inl e \<Rightarrow> Inl e
      | Inr (devs, count, snk) \<Rightarrow>
          Inr (d\<lparr>midiEventCount := count, midiEvents := snk, midiDevices := devs\<rparr>))"

datatype midi_op = BeginPeriod | ReadData "32 word" "rawmidi_read list list"

fun run_ops :: "midi_op list \<Rightarrow> midi_driver \<Rightarrow> midi_error + midi_driver" where
  "run_ops [] d = Inr d"
| "run_ops (BeginPeriod # ops) d = run_ops ops (d\<lparr>midiEventCount := 0\<rparr>)"
| "run_ops (ReadData audioFrame reads # ops) d =
     (case ReadMidiData audioFrame reads d of Inl e \<Rightarrow> Inl e | Inr d' \<Rightarrow> run_ops ops d')"

definition decoder_ok :: "AlsaMidiDeviceImpl \<Rightarrow> bool" where
  "decoder_ok s \<longleftrightarrow>
     sink_wf (pInputEventBuffer s) \<and> dataLength s \<le> 2 \<and>
     inputEventBufferIndex s \<le> MAX_MIDI_EVENT \<and>
     (\<forall>i<inputEventBufferIndex s. 1 \<le> size_ev (events (pInputEventBuffer s) ! i))"

definition keeps :: "nat \<Rightarrow> event_sink \<Rightarrow> event_sink \<Rightarrow> bool" where
  "keeps n snk snk' \<longleftrightarrow>
     (\<forall>i<n. events snk' ! i = events snk ! i \<and> event_bytes snk' i = event_bytes snk i)"

definition extends :: "AlsaMidiDeviceImpl \<Rightarrow> AlsaMidiDeviceImpl \<Rightarrow> bool" where
  "extends s s' \<longleftrightarrow>
     inputEventBufferIndex s \<le> inputEventBufferIndex s' \<and>
     inputSampleFrame s' = inputSampleFrame s \<and>
     keeps (inputEventBufferIndex s) (pInputEventBuffer s) (pInputEventBuffer s')"

definition sink_ok :: "event_sink \<Rightarrow> nat \<Rightarrow> bool" where
  "sink_ok snk n \<longleftrightarrow>
     sink_wf snk \<and> n \<le> MAX_MIDI_EVENT \<and> (\<forall>i<n. 1 \<le> size_ev (events snk ! i))"

definition driver_ok :: "midi_driver \<Rightarrow> bool" where
  "driver_ok d \<longleftrightarrow>
     sink_ok (midiEvents d) (midiEventCount d) \<and> (\<forall>dev\<in>set (midiDevices d). dataLength dev \<le> 2)"

section \<open>Sample codec (\<open>CopyCapture*\<close>, \<open>CopyPlayback*\<close>)\<close>

subsection \<open>Single-precision arithmetic\<close>

text \<open>
  The codec computes in \<open>float\<close>. A finite \<open>float\<close> is modelled by its value, a real
  number, and every operation by the exact result rounded to the nearest binary32 value,
  ties to even (the default rounding mode; \<open>float\<close> expressions are evaluated in
  \<open>float\<close>). \<open>denorm_min\<close> is the smallest positive binary32 value, \<open>1 / 2 ^ 149\<close>. The
  binary32 values near \<open>x\<close> are the multiples of \<open>ulp32 x\<close>: the smallest \<open>denorm_min * 2 ^ k\<close>
  with \<open>\<bar>x\<bar> < 2 ^ 24 * (denorm_min * 2 ^ k)\<close>, so 24 significant bits, and \<open>denorm_min\<close>
  itself in the subnormal range; \<open>k\<close> stops at 253, the spacing \<open>2 ^ 104\<close> of the largest
  binade.
  Infinities, NaN and overflow are outside this model; no value the claims are about
  comes near them.
\<close>

definition denorm_min :: real where
  "denorm_min = 1 / 2 ^ 149"

fun ulp_search :: "nat \<Rightarrow> real \<Rightarrow> real \<Rightarrow> real" where
  "ulp_search 0 u a = u"
| "ulp_search (Suc n) u a = (if a < 2 ^ 24 * u then u else ulp_search n (2 * u) a)"

definition ulp32 :: "real \<Rightarrow> real" where
  "ulp32 x = ulp_search 253 denorm_min \<bar>x\<bar>"

definition round_even :: "real \<Rightarrow> int" where
  "round_even x =
     (let f = \<lfloor>x\<rfloor>; d = x - of_int f
      in if d < 1 / 2 then f else if d > 1 / 2 then f + 1 else if even f then f else f + 1)"

definition round_f32 :: "real \<Rightarrow> real" where
  "round_f32 x = of_int (round_even (x / ulp32 x)) * ulp32 x"

text \<open>\<open>a * b\<close> and \<open>a / b\<close> on \<open>float\<close>, and the conversion of an integer to \<open>float\<close>.\<close>

definition fmul :: "real \<Rightarrow> real \<Rightarrow> real" where
  "fmul a b = round_f32 (a * b)"

definition fdiv :: "real \<Rightarrow> real \<Rightarrow> real" where
  "fdiv a b = round_f32 (a / b)"

definition float_of_int :: "int \<Rightarrow> real" where
  "float_of_int i = round_f32 (of_int i)"

text \<open>
  The casts \<open>(int16_t)\<close> and \<open>(int32_t)\<close> of a \<open>float\<close> discard the fractional part. When
  the truncated value does not fit the integer type the behaviour of the cast is
  undefined in C++; that is the result \<open>None\<close>.
\<close>

definition truncate_int :: "real \<Rightarrow> int" where
  "truncate_int x = (if 0 \<le> x then \<lfloor>x\<rfloor> else \<lceil>x\<rceil>)"

definition int16_of_float :: "real \<Rightarrow> 16 word option" where
  "int16_of_float x =
     (if - (2 ^ 15) \<le> truncate_int x \<and> truncate_int x < 2 ^ 15
      then Some (word_of_int (truncate_int x)) else None)"

definition int32_of_float :: "real \<Rightarrow> 32 word option" where
  "int32_of_float x =
     (if - (2 ^ 31) \<le> truncate_int x \<and> truncate_int x < 2 ^ 31
      then Some (word_of_int (truncate_int x)) else None)"


subsection \<open>Bytes of the raw buffers\<close>

text \<open>
  \<open>EndianSwap\<close> on \<open>int32_t\<close> and on \<open>int16_t\<close>; \<open>>>\<close> on a signed integer is the
  arithmetic shift.
\<close>

definition EndianSwap_int32 :: "32 word \<Rightarrow> 32 word" where
  "EndianSwap_int32 v =
     (let b0 = v AND 0xFF;
          b1 = signed_drop_bit 8 v AND 0xFF;
          b2 = signed_drop_bit 16 v AND 0xFF;
          b3 = signed_drop_bit 24 v AND 0xFF
      in push_bit 24 b0 OR push_bit 16 b1 OR push_bit 8 b2 OR b3)"

definition EndianSwap_int16 :: "16 word \<Rightarrow> 16 word" where
  "EndianSwap_int16 v =
     (let b0 = v AND 0xFF;
          b1 = signed_drop_bit 8 v AND 0xFF
      in push_bit 8 b0 OR b1)"

text \<open>
  The raw buffers are byte vectors that the code reads and writes through \<open>int16_t *\<close>,
  \<open>int32_t *\<close> and \<open>float *\<close>: on the little-endian host the driver runs on, the least
  significant byte comes first.
\<close>

definition put_int16 :: "16 word \<Rightarrow> 8 word list" where
  "put_int16 w = [ucast w, ucast (drop_bit 8 w)]"

definition get_int16 :: "8 word list \<Rightarrow> 16 word" where
  "get_int16 bs = ucast (bs ! 0) OR push_bit 8 (ucast (bs ! 1))"

definition put_int32 :: "32 word \<Rightarrow> 8 word list" where
  "put_int32 w = [ucast w, ucast (drop_bit 8 w), ucast (drop_bit 16 w), ucast (drop_bit 24 w)]"

definition get_int32 :: "8 word list \<Rightarrow> 32 word" where
  "get_int32 bs =
     ucast (bs ! 0) OR push_bit 8 (ucast (bs ! 1)) OR push_bit 16 (ucast (bs ! 2)) OR
     push_bit 24 (ucast (bs ! 3))"

subsection \<open>One sample\<close>

text \<open>
  What the inner loop of each \<open>CopyCapture*\<close> and \<open>CopyPlayback*\<close> function does with one
  sample: \<open>p\<close> holds the bytes at the read pointer, and the result of a playback body is
  the bytes written at the write pointer. \<open>clamp1\<close> is the pair of tests on \<open>v\<close>.

  The \<open>constexpr float scale\<close> of each function is the constant converted to \<open>float\<close>:
  \<open>std::numeric_limits<int32_t>::max()\<close> is not a binary32 value, and the conversion rounds
  it. The divisors \<open>max() + 1L\<close> are computed in \<open>long\<close>, 64 bits wide on the platforms of
  the driver.
\<close>

definition clamp1 :: "real \<Rightarrow> real" where
  "clamp1 v = (if v > 1 then 1 else if v < - 1 then - 1 else v)"

definition scale_S16 :: real where "scale_S16 = float_of_int 32767"
definition scale_S32 :: real where "scale_S32 = float_of_int 2147483647"
definition scale_S24 :: real where "scale_S24 = float_of_int 0x00FFFFFF"

definition inv_scale_S16 :: real where "inv_scale_S16 = fdiv 1 (float_of_int (32767 + 1))"
definition inv_scale_S32 :: real where "inv_scale_S32 = fdiv 1 (float_of_int (2147483647 + 1))"
definition inv_scale_S24 :: real where "inv_scale_S24 = fdiv 1 (float_of_int (0x00FFFFFF + 1))"

definition CopyCaptureFloatBe_body :: "8 word list \<Rightarrow> 32 word" where
  "CopyCaptureFloatBe_body p = EndianSwap_int32 (get_int32 p)"

definition CopyCaptureFloatLe_body :: "8 word list \<Rightarrow> 32 word" where
  "CopyCaptureFloatLe_body p = get_int32 p"

definition CopyCaptureS16Le_body :: "8 word list \<Rightarrow> real" where
  "CopyCaptureS16Le_body p = fmul inv_scale_S16 (float_of_int (sint (get_int16 p)))"

definition CopyCaptureS16Be_body :: "8 word list \<Rightarrow> real" where
  "CopyCaptureS16Be_body p = fmul inv_scale_S16 (float_of_int (sint (EndianSwap_int16 (get_int16 p))))"

definition CopyCaptureS32Le_body :: "8 word list \<Rightarrow> real" where
  "CopyCaptureS32Le_body p = fmul inv_scale_S32 (float_of_int (sint (get_int32 p)))"

text \<open>
  \<open>(p[0] << 8) + (p[1] << 16) | (p[2] << 24)\<close>: \<open>+\<close> binds tighter than \<open>|\<close>. The bytes are
  promoted to \<open>int\<close>; the result is stored in an \<open>int32_t\<close>.
\<close>

definition S24_3_word :: "8 word \<Rightarrow> 8 word \<Rightarrow> 8 word \<Rightarrow> 32 word" where
  "S24_3_word a b c = (push_bit 8 (ucast a) + push_bit 16 (ucast b)) OR push_bit 24 (ucast c)"

text \<open>The form the specification gives: \<open>(p[0]<<8) | (p[1]<<16) | (p[2]<<24)\<close>.\<close>

definition S24_3_word_spec :: "8 word \<Rightarrow> 8 word \<Rightarrow> 8 word \<Rightarrow> 32 word" where
  "S24_3_word_spec a b c = push_bit 8 (ucast a) OR push_bit 16 (ucast b) OR push_bit 24 (ucast c)"

definition CopyCaptureS24_3Le_body :: "8 word list \<Rightarrow> real" where
  "CopyCaptureS24_3Le_body p = fmul inv_scale_S32 (float_of_int (sint (S24_3_word (p ! 0) (p ! 1) (p ! 2))))"

definition CopyCaptureS24_3Be_body :: "8 word list \<Rightarrow> real" where
  "CopyCaptureS24_3Be_body p = fmul inv_scale_S32 (float_of_int (sint (S24_3_word (p ! 2) (p ! 1) (p ! 0))))"

definition CopyCaptureS24Le_body :: "8 word list \<Rightarrow> real" where
  "CopyCaptureS24Le_body p = fmul inv_scale_S24 (float_of_int (sint (get_int32 p)))"

definition CopyCaptureS24Be_body :: "8 word list \<Rightarrow> real" where
  "CopyCaptureS24Be_body p = fmul inv_scale_S24 (float_of_int (sint (EndianSwap_int32 (get_int32 p))))"

definition CopyCaptureS32Be_body :: "8 word list \<Rightarrow> real" where
  "CopyCaptureS32Be_body p = fmul inv_scale_S32 (float_of_int (sint (EndianSwap_int32 (get_int32 p))))"

definition CopyPlaybackS16Le_body :: "real \<Rightarrow> 8 word list option" where
  "CopyPlaybackS16Le_body v = map_option put_int16 (int16_of_float (fmul scale_S16 (clamp1 v)))"

definition CopyPlaybackS16Be_body :: "real \<Rightarrow> 8 word list option" where
  "CopyPlaybackS16Be_body v =
     map_option (\<lambda>i. put_int16 (EndianSwap_int16 i)) (int16_of_float (fmul scale_S16 (clamp1 v)))"

definition CopyPlaybackS32Le_body :: "real \<Rightarrow> 8 word list option" where
  "CopyPlaybackS32Le_body v = map_option put_int32 (int32_of_float (fmul scale_S32 (clamp1 v)))"

definition CopyPlaybackS24Le_body :: "real \<Rightarrow> 8 word list option" where
  "CopyPlaybackS24Le_body v = map_option put_int32 (int32_of_float (fmul scale_S24 (clamp1 v)))"

definition CopyPlaybackS24Be_body :: "real \<Rightarrow> 8 word list option" where
  "CopyPlaybackS24Be_body v =
     map_option (\<lambda>i. put_int32 (EndianSwap_int32 i)) (int32_of_float (fmul scale_S24 (clamp1 v)))"

definition CopyPlaybackS32Be_body :: "real \<Rightarrow> 8 word list option" where
  "CopyPlaybackS32Be_body v =
     map_option (\<lambda>i. put_int32 (EndianSwap_int32 i)) (int32_of_float (fmul scale_S32 (clamp1 v)))"

definition CopyPlaybackS24_3Be_body :: "real \<Rightarrow> 8 word list option" where
  "CopyPlaybackS24_3Be_body v =
     map_option (\<lambda>iValue. [ucast (signed_drop_bit 24 iValue), ucast (signed_drop_bit 16 iValue),
                            ucast (signed_drop_bit 8 iValue)])
       (int32_of_float (fmul scale_S32 (clamp1 v)))"

definition CopyPlaybackS24_3Le_body :: "real \<Rightarrow> 8 word list option" where
  "CopyPlaybackS24_3Le_body v =
     map_option (\<lambda>iValue. [ucast (signed_drop_bit 8 iValue), ucast (signed_drop_bit 16 iValue),
                            ucast (signed_drop_bit 24 iValue)])
       (int32_of_float (fmul scale_S32 (clamp1 v)))"

text \<open>The \<open>F32\<close> playback functions store the sample as it is, byte-swapped for \<open>FloatBe\<close>.\<close>

definition CopyPlaybackFloatLe_body :: "32 word \<Rightarrow> 8 word list option" where
  "CopyPlaybackFloatLe_body v = Some (put_int32 v)"

definition CopyPlaybackFloatBe_body :: "32 word \<Rightarrow> 8 word list option" where
  "CopyPlaybackFloatBe_body v = Some (put_int32 (EndianSwap_int32 v))"

subsection \<open>The loops over frames and channels\<close>

text \<open>
  The buffers of \<open>AlsaDriverImpl\<close> that the codec uses. The channel buffers hold \<open>float\<close>s:
  values where the code computes with them, bit patterns where it only moves them (the
  type parameter). Every function walks the raw buffer with one pointer, frame by frame
  and, inside a frame, channel by channel. An access outside a buffer is \<open>None\<close>.
\<close>

record 'f audio_buffers =
  captureChannels :: nat
  playbackChannels :: nat
  captureBuffers :: "'f list list"
  playbackBuffers :: "'f list list"
  rawCaptureBuffer :: "8 word list"
  rawPlaybackBuffer :: "8 word list"

fun playback_steps ::
  "('f \<Rightarrow> 8 word list option) \<Rightarrow> 'f list list \<Rightarrow> (nat \<times> nat) list \<Rightarrow> nat \<Rightarrow> 8 word list
     \<Rightarrow> 8 word list option" where
  "playback_steps body buffers [] p raw = Some raw"
| "playback_steps body buffers ((frame, channel) # rest) p raw =
     (if channel < length buffers \<and> frame < length (buffers ! channel) then
        (case body (buffers ! channel ! frame) of
           None \<Rightarrow> None
         | Some bs \<Rightarrow>
             if p + length bs \<le> length raw
             then playback_steps body buffers rest (p + length bs)
                    (take p raw @ bs @ drop (p + length bs) raw)
             else None)
      else None)"

definition copy_playback ::
  "('f \<Rightarrow> 8 word list option) \<Rightarrow> nat \<Rightarrow> nat \<Rightarrow> 'f list list \<Rightarrow> 8 word list \<Rightarrow> 8 word list option" where
  "copy_playback body channels frames buffers raw =
     playback_steps body buffers (List.product [0..<frames] [0..<channels]) 0 raw"

definition playback_into ::
  "('f \<Rightarrow> 8 word list option) \<Rightarrow> nat \<Rightarrow> nat \<Rightarrow> 'f audio_buffers \<Rightarrow> 'f audio_buffers option" where
  "playback_into body channels frames d =
     map_option (\<lambda>raw. d\<lparr>rawPlaybackBuffer := raw\<rparr>)
       (copy_playback body channels frames (playbackBuffers d) (rawPlaybackBuffer d))"

fun capture_steps ::
  "(8 word list \<Rightarrow> 'f) \<Rightarrow> nat \<Rightarrow> 8 word list \<Rightarrow> (nat \<times> nat) list \<Rightarrow> nat \<Rightarrow> 'f list list
     \<Rightarrow> 'f list list option" where
  "capture_steps body k raw [] p buffers = Some buffers"
| "capture_steps body k raw ((frame, channel) # rest) p buffers =
     (if p + k \<le> length raw \<and> channel < length buffers \<and> frame < length (buffers ! channel)
      then capture_steps body k raw rest (p + k)
             (buffers[channel := (buffers ! channel)[frame := body (take k (drop p raw))]])
      else None)"

definition copy_capture ::
  "(8 word list \<Rightarrow> 'f) \<Rightarrow> nat \<Rightarrow> nat \<Rightarrow> nat \<Rightarrow> 8 word list \<Rightarrow> 'f list list \<Rightarrow> 'f list list option" where
  "copy_capture body k channels frames raw buffers =
     capture_steps body k raw (List.product [0..<frames] [0..<channels]) 0 buffers"

definition capture_into ::
  "(8 word list \<Rightarrow> 'f) \<Rightarrow> nat \<Rightarrow> nat \<Rightarrow> nat \<Rightarrow> 'f audio_buffers \<Rightarrow> 'f audio_buffers option" where
  "capture_into body k channels frames d =
     map_option (\<lambda>buffers. d\<lparr>captureBuffers := buffers\<rparr>)
       (copy_capture body k channels frames (rawCaptureBuffer d) (captureBuffers d))"

text \<open>The capture functions: all run over \<open>captureChannels\<close>.\<close>

definition CopyCaptureFloatBe :: "nat \<Rightarrow> (32 word) audio_buffers \<Rightarrow> (32 word) audio_buffers option" where
  "CopyCaptureFloatBe frames d = capture_into CopyCaptureFloatBe_body 4 (captureChannels d) frames d"

definition CopyCaptureFloatLe :: "nat \<Rightarrow> (32 word) audio_buffers \<Rightarrow> (32 word) audio_buffers option" where
  "CopyCaptureFloatLe frames d = capture_into CopyCaptureFloatLe_body 4 (captureChannels d) frames d"

definition CopyCaptureS16Le :: "nat \<Rightarrow> real audio_buffers \<Rightarrow> real audio_buffers option" where
  "CopyCaptureS16Le frames d = capture_into CopyCaptureS16Le_body 2 (captureChannels d) frames d"

definition CopyCaptureS16Be :: "nat \<Rightarrow> real audio_buffers \<Rightarrow> real audio_buffers option" where
  "CopyCaptureS16Be frames d = capture_into CopyCaptureS16Be_body 2 (captureChannels d) frames d"

definition CopyCaptureS32Le :: "nat \<Rightarrow> real audio_buffers \<Rightarrow> real audio_buffers option" where
  "CopyCaptureS32Le frames d = capture_into CopyCaptureS32Le_body 4 (captureChannels d) frames d"

definition CopyCaptureS24_3Le :: "nat \<Rightarrow> real audio_buffers \<Rightarrow> real audio_buffers option" where
  "CopyCaptureS24_3Le frames d = capture_into CopyCaptureS24_3Le_body 3 (captureChannels d) frames d"

definition CopyCaptureS24_3Be :: "nat \<Rightarrow> real audio_buffers \<Rightarrow> real audio_buffers option" where
  "CopyCaptureS24_3Be frames d = capture_into CopyCaptureS24_3Be_body 3 (captureChannels d) frames d"

definition CopyCaptureS24Le :: "nat \<Rightarrow> real audio_buffers \<Rightarrow> real audio_buffers option" where
  "CopyCaptureS24Le frames d = capture_into CopyCaptureS24Le_body 4 (captureChannels d) frames d"

definition CopyCaptureS24Be :: "nat \<Rightarrow> real audio_buffers \<Rightarrow> real audio_buffers option" where
  "CopyCaptureS24Be frames d = capture_into CopyCaptureS24Be_body 4 (captureChannels d) frames d"

definition CopyCaptureS32Be :: "nat \<Rightarrow> real audio_buffers \<Rightarrow> real audio_buffers option" where
  "CopyCaptureS32Be frames d = capture_into CopyCaptureS32Be_body 4 (captureChannels d) frames d"

text \<open>The playback functions of the integer formats run over \<open>playbackChannels\<close>.\<close>

definition CopyPlaybackS16Le :: "nat \<Rightarrow> real audio_buffers \<Rightarrow> real audio_buffers option" where
  "CopyPlaybackS16Le frames d = playback_into CopyPlaybackS16Le_body (playbackChannels d) frames d"

definition CopyPlaybackS16Be :: "nat \<Rightarrow> real audio_buffers \<Rightarrow> real audio_buffers option" where
  "CopyPlaybackS16Be frames d = playback_into CopyPlaybackS16Be_body (playbackChannels d) frames d"

definition CopyPlaybackS32Le :: "nat \<Rightarrow> real audio_buffers \<Rightarrow> real audio_buffers option" where
  "CopyPlaybackS32Le frames d = playback_into CopyPlaybackS32Le_body (playbackChannels d) frames d"

definition CopyPlaybackS24Le :: "nat \<Rightarrow> real audio_buffers \<Rightarrow> real audio_buffers option" where
  "CopyPlaybackS24Le frames d = playback_into CopyPlaybackS24Le_body (playbackChannels d) frames d"

definition CopyPlaybackS24Be :: "nat \<Rightarrow> real audio_buffers \<Rightarrow> real audio_buffers option" where
  "CopyPlaybackS24Be frames d = playback_into CopyPlaybackS24Be_body (playbackChannels d) frames d"

definition CopyPlaybackS32Be :: "nat \<Rightarrow> real audio_buffers \<Rightarrow> real audio_buffers option" where
  "CopyPlaybackS32Be frames d = playback_into CopyPlaybackS32Be_body (playbackChannels d) frames d"

definition CopyPlaybackS24_3Be :: "nat \<Rightarrow> real audio_buffers \<Rightarrow> real audio_buffers option" where
  "CopyPlaybackS24_3Be frames d = playback_into CopyPlaybackS24_3Be_body (playbackChannels d) frames d"

definition CopyPlaybackS24_3Le :: "nat \<Rightarrow> real audio_buffers \<Rightarrow> real audio_buffers option" where
  "CopyPlaybackS24_3Le frames d = playback_into CopyPlaybackS24_3Le_body (playbackChannels d) frames d"

text \<open>\<open>CopyPlaybackFloatLe\<close> and \<open>CopyPlaybackFloatBe\<close> take \<open>this->captureChannels\<close>.\<close>

definition CopyPlaybackFloatLe :: "nat \<Rightarrow> (32 word) audio_buffers \<Rightarrow> (32 word) audio_buffers option" where
  "CopyPlaybackFloatLe frames d =
     playback_into CopyPlaybackFloatLe_body (captureChannels d) frames d"

definition CopyPlaybackFloatBe :: "nat \<Rightarrow> (32 word) audio_buffers \<Rightarrow> (32 word) audio_buffers option" where
  "CopyPlaybackFloatBe frames d =
     playback_into CopyPlaybackFloatBe_body (captureChannels d) frames d"

text \<open>
  The rule of the specification for the \<open>F32\<close> formats, as for every other format: one
  sample for each of the playback channels.
\<close>

definition CopyPlaybackFloatLe_spec :: "nat \<Rightarrow> (32 word) audio_buffers \<Rightarrow> (32 word) audio_buffers option" where
  "CopyPlaybackFloatLe_spec frames d =
     playback_into CopyPlaybackFloatLe_body (playbackChannels d) frames d"

definition CopyPlaybackFloatBe_spec :: "nat \<Rightarrow> (32 word) audio_buffers \<Rightarrow> (32 word) audio_buffers option" where
  "CopyPlaybackFloatBe_spec frames d =
     playback_into CopyPlaybackFloatBe_body (playbackChannels d) frames d"

text \<open>
  The encode/decode test of the driver (\<open>TestFormatEncodeDecode\<close>) copies the raw playback
  buffer to the raw capture buffer between the two conversions: \<open>memcpy\<close> of \<open>n\<close> bytes.
\<close>

definition loopback :: "nat \<Rightarrow> 'f audio_buffers \<Rightarrow> 'f audio_buffers" where
  "loopback n d =
     d\<lparr>rawCaptureBuffer := take n (rawPlaybackBuffer d) @ drop n (rawCaptureBuffer d)\<rparr>"

text \<open>
  The test runs the playback function and then the capture function of one format on a
  whole period: \<open>(this->*copyOutputFn)(bufferSize)\<close>, the \<open>memcpy\<close> of
  \<open>captureFrameSize * bufferSize\<close> bytes, \<open>(this->*copyInputFn)(bufferSize)\<close>.
\<close>

definition encode_decode ::
  "(nat \<Rightarrow> 'f audio_buffers \<Rightarrow> 'f audio_buffers option) \<Rightarrow>
   (nat \<Rightarrow> 'f audio_buffers \<Rightarrow> 'f audio_buffers option) \<Rightarrow>
   nat \<Rightarrow> nat \<Rightarrow> 'f audio_buffers \<Rightarrow> 'f audio_buffers option" where
  "encode_decode copyOutputFn copyInputFn captureSampleSize frames d =
     (case copyOutputFn frames d of
        None \<Rightarrow> None
      | Some d1 \<Rightarrow>
          copyInputFn frames
            (loopback (captureSampleSize * captureChannels d1 * frames) d1))"

text \<open>
  The buffers as \<open>PrepareCaptureFunctions\<close> and \<open>PreparePlaybackFunctions\<close> size them for
  samples of \<open>k\<close> bytes and a period of \<open>frames\<close> frames: one buffer of \<open>frames\<close> samples per
  channel, and raw buffers of \<open>k * channels * frames\<close> bytes.
\<close>

definition allocated :: "nat \<Rightarrow> nat \<Rightarrow> 'f audio_buffers \<Rightarrow> bool" where
  "allocated k frames d \<longleftrightarrow>
     length (captureBuffers d) = captureChannels d \<and>
     length (playbackBuffers d) = playbackChannels d \<and>
     (\<forall>b\<in>set (captureBuffers d). length b = frames) \<and>
     (\<forall>b\<in>set (playbackBuffers d). length b = frames) \<and>
     length (rawCaptureBuffer d) = k * captureChannels d * frames \<and>
     length (rawPlaybackBuffer d) = k * playbackChannels d * frames"

subsection \<open>Auxiliary notions for the proofs about the codec\<close>

text \<open>The spacings of binary32 values: \<open>denorm_min\<close> times a power of two.\<close>

definition grid :: "real \<Rightarrow> bool" where
  "grid g \<longleftrightarrow> (\<exists>b. g = denorm_min * 2 ^ b)"

text \<open>
  Buffers as \<open>PrepareCaptureFunctions\<close> and \<open>PreparePlaybackFunctions\<close> allocate them for
  \<open>c\<close> capture and \<open>p\<close> playback channels of 4-byte samples and a period of one frame: the
  playback channels hold the \<open>float\<close> with the bits \<open>0x3F800001\<close>, the raw buffers are zeroed.
\<close>

definition one_frame :: "nat \<Rightarrow> nat \<Rightarrow> (32 word) audio_buffers" where
  "one_frame c p =
     \<lparr>captureChannels = c, playbackChannels = p,
      captureBuffers = replicate c [0], playbackBuffers = replicate p [0x3F800001],
      rawCaptureBuffer = replicate (4 * c) 0, rawPlaybackBuffer = replicate (4 * p) 0\<rparr>"

section \<open>Stream configuration (\<open>AlsaConfigureStream\<close>)\<close>

text \<open>
  \<open>AlsaConfigureStream\<close> is a sequence of calls into the ALSA library, each of which may
  be refused, and then \<open>AlsaError\<close> throws. What the library answers is the input of the
  model: \<open>alsa_pcm\<close> holds, for each call, the error code it returns and the value it leaves
  in its in/out parameter (as a function of the value passed in where the code passes
  one). The result is the error thrown, or the driver's parameters with the channel and
  period counts written through the two pointers. \<open>periods\<close>, \<open>numberOfBuffers\<close> and
  \<open>bufferSize\<close> are 32-bit unsigned, \<open>snd_pcm_uframes_t\<close> is 64-bit unsigned.
\<close>

text \<open>The error sites of \<open>AlsaConfigureStream\<close>, named after their messages.\<close>

datatype alsa_error =
    No_playback_configurations_available
  | Set_access_failed
  | No_supported_audio_formats
  | Cant_set_sample_rate
  | Cant_get_channels_max
  | Cant_get_channels_min
  | Cant_set_channel_count
  | Cant_set_period_size
  | Cant_set_number_of_periods
  | Got_smaller_periods "32 word" "32 word"
  | Cannot_set_hardware_parameters
  | Cannot_set_start_mode
  | Cannot_set_stop_mode
  | Cannot_set_silence_threshold
  | Cannot_set_avail_min
  | Cannot_set_software_parameters
  | ALSA_prepare_failed

text \<open>
  The answers of the library, in the order of the calls. \<open>format_accepted\<close> says whether
  \<open>SetPreferredAlsaFormat\<close> finds a format; \<open>hw_params_test_channels\<close> is
  \<open>snd_pcm_hw_params_set_channels\<close> on the copy \<open>test_params\<close>. \<open>hw_params_set_periods_min\<close>
  gives the value left in \<open>*periods\<close> (its error code is ignored by the code).
\<close>

record alsa_pcm =
  hw_params_any :: int
  hw_params_set_access :: int
  format_accepted :: bool
  hw_params_set_rate_near :: "32 word \<Rightarrow> int \<times> 32 word"
  hw_params_get_channels_max :: "int \<times> 32 word"
  hw_params_get_channels_min :: "int \<times> 32 word"
  hw_params_test_channels :: "32 word \<Rightarrow> int"
  hw_params_set_channels :: "32 word \<Rightarrow> int"
  hw_params_set_period_size_near :: "64 word \<Rightarrow> int \<times> 64 word"
  hw_params_set_periods_min :: "32 word \<Rightarrow> 32 word"
  hw_params_set_periods_near :: "32 word \<Rightarrow> int \<times> 32 word"
  hw_params :: int
  sw_params_set_start_threshold :: int
  sw_params_set_stop_threshold :: int
  sw_params_set_silence_threshold :: int
  sw_params_set_avail_min :: int
  sw_params :: int
  pcm_prepare :: int

text \<open>The members of \<open>AlsaDriverImpl\<close> that \<open>SetAlsaParameters\<close> sets.\<close>

record alsa_parameters =
  bufferSize :: "32 word"
  numberOfBuffers :: "32 word"
  sampleRate :: "32 word"

text \<open>
  The channel count: the caller's, or, when it is 0, the maximum of the device, 2 where
  the device accepts it, and 2 again for a device without a limit. \<open>*channels\<close> is an
  \<open>int\<close>, the counts of the device are \<open>unsigned int\<close>.
\<close>

definition find_channels :: "alsa_pcm \<Rightarrow> 32 word \<Rightarrow> alsa_error + 32 word" where
  "find_channels pcm channels =
     (if channels \<noteq> 0 then Inr channels
      else
        let (err_max, channels_max) = hw_params_get_channels_max pcm in
        if err_max < 0 then Inl Cant_get_channels_max
        else
          let (err_min, channels_min) = hw_params_get_channels_min pcm in
          if err_min < 0 then Inl Cant_get_channels_min
          else
            let c1 = (if channels_max > 2 \<and> channels_min \<le> 2 \<and> channels_min > 0
                         \<and> hw_params_test_channels pcm 2 \<ge> 0
                      then 2 else channels_max)
            in Inr (if sint c1 > 1024 then 2 else c1))"

text \<open>
  The value of \<open>*periods\<close> passed to \<open>snd_pcm_hw_params_set_periods_near\<close>:
  \<open>numberOfBuffers\<close>, raised by \<open>snd_pcm_hw_params_set_periods_min\<close> if the device needs more.
\<close>

definition requested_periods :: "alsa_pcm \<Rightarrow> alsa_parameters \<Rightarrow> 32 word" where
  "requested_periods pcm d =
     (let periods = hw_params_set_periods_min pcm (numberOfBuffers d)
      in if periods < numberOfBuffers d then numberOfBuffers d else periods)"

text \<open>The software parameters and \<open>snd_pcm_prepare\<close>, after the hardware parameters.\<close>

definition configure_software :: "alsa_pcm \<Rightarrow> alsa_error option" where
  "configure_software pcm =
     (if sw_params_set_start_threshold pcm < 0 then Some Cannot_set_start_mode
      else if sw_params_set_stop_threshold pcm < 0 then Some Cannot_set_stop_mode
      else if sw_params_set_silence_threshold pcm < 0 then Some Cannot_set_silence_threshold
      else if sw_params_set_avail_min pcm < 0 then Some Cannot_set_avail_min
      else if sw_params pcm < 0 then Some Cannot_set_software_parameters
      else if pcm_prepare pcm < 0 then Some ALSA_prepare_failed
      else None)"

definition AlsaConfigureStream ::
  "alsa_pcm \<Rightarrow> 32 word \<Rightarrow> alsa_parameters \<Rightarrow> alsa_error + (alsa_parameters \<times> 32 word \<times> 32 word)" where
  "AlsaConfigureStream pcm channels d =
     (if hw_params_any pcm < 0 then Inl No_playback_configurations_available
      else if hw_params_set_access pcm < 0 then Inl Set_access_failed
      else if \<not> format_accepted pcm then Inl No_supported_audio_formats
      else
        let (err_rate, rate) = hw_params_set_rate_near pcm (sampleRate d);
            d1 = d\<lparr>sampleRate := rate\<rparr>
        in if err_rate < 0 then Inl Cant_set_sample_rate
        else
          case find_channels pcm channels of
            Inl e \<Rightarrow> Inl e
          | Inr channels' \<Rightarrow>
              if hw_params_set_channels pcm channels' < 0 then Inl Cant_set_channel_count
              else
                let (err_size, effectivePeriodSize) =
                      hw_params_set_period_size_near pcm (ucast (bufferSize d1))
                in if err_size < 0 then Inl Cant_set_period_size
                else
                  let d2 = d1\<lparr>bufferSize := ucast effectivePeriodSize\<rparr>;
                      (err_periods, periods) =
                        hw_params_set_periods_near pcm (requested_periods pcm d2)
                  in if err_periods < 0 then Inl Cant_set_number_of_periods
                  else if periods < numberOfBuffers d2
                  then Inl (Got_smaller_periods periods (numberOfBuffers d2))
                  else if hw_params pcm < 0 then Inl Cannot_set_hardware_parameters
                  else
                    case configure_software pcm of
                      Some e \<Rightarrow> Inl e
                    | None \<Rightarrow> Inr (d2, channels', periods))"

text \<open>
  A device that accepts every request and always settles on \<open>n\<close> periods; used to run
  the configuration on concrete input.
\<close>

definition fixed_periods_pcm :: "32 word \<Rightarrow> alsa_pcm" where
  "fixed_periods_pcm n =
     \<lparr>hw_params_any = 0, hw_params_set_access = 0, format_accepted = True,
      hw_params_set_rate_near = (\<lambda>rate. (0, rate)),
      hw_params_get_channels_max = (0, 2), hw_params_get_channels_min = (0, 2),
      hw_params_test_channels = (\<lambda>c. 0), hw_params_set_channels = (\<lambda>c. 0),
      hw_params_set_period_size_near = (\<lambda>size. (0, size)),
      hw_params_set_periods_min = (\<lambda>periods. periods),
      hw_params_set_periods_near = (\<lambda>periods. (0, n)),
      hw_params = 0, sw_params_set_start_threshold = 0, sw_params_set_stop_threshold = 0,
      sw_params_set_silence_threshold = 0, sw_params_set_avail_min = 0, sw_params = 0,
      pcm_prepare = 0\<rparr>"

section \<open>Properties of the MIDI decoder\<close>

subsection \<open>Storing events\<close>

lemma nth_list_update_if: "xs[i := x] ! j = (if i = j \<and> i < length xs then x else xs ! j)"
  by (cases "i < length xs") (simp_all add: nth_list_update list_update_beyond)

lemma MidiPut_store:
  "MidiPut cc d0 d1 s =
     (if cc = 0 \<or> inputEventBufferIndex s \<ge> length (events (pInputEventBuffer s)) then s
      else s\<lparr>pInputEventBuffer :=
                store_event (pInputEventBuffer s) (inputEventBufferIndex s) (inputSampleFrame s)
                  (dataLength s + 1) cc d0 d1,
              inputEventBufferIndex := inputEventBufferIndex s + 1\<rparr>)"
  by (simp add: MidiPut_def store_event_def Let_def)

lemma sink_wf_new: "sink_wf new_sink"
  by (simp add: sink_wf_def new_sink_def)

lemma new_sink_length_events: "length (events new_sink) = 4096"
  by (simp add: new_sink_def MAX_MIDI_EVENT_def)

lemma length_events_store [simp]:
  "length (events (store_event snk i t sz cc d0 d1)) = length (events snk)"
  by (simp add: store_event_def Let_def)

lemma length_memory_store [simp]:
  "length (memory (store_event snk i t sz cc d0 d1)) = length (memory snk)"
  by (simp add: store_event_def Let_def)

lemma sink_wf_store: "sink_wf snk \<Longrightarrow> sz \<le> 3 \<Longrightarrow> sink_wf (store_event snk i t sz cc d0 d1)"
  by (auto simp add: sink_wf_def store_event_def Let_def nth_list_update_if)

lemma event_bytes_store_other:
  assumes "sink_wf snk" "j < MAX_MIDI_EVENT" "i < MAX_MIDI_EVENT" "j \<noteq> i"
  shows "event_bytes (store_event snk i t sz cc d0 d1) j = event_bytes snk j"
proof -
  have b: "buffer_ev (events snk ! i) = i * 3" "buffer_ev (events snk ! j) = j * 3"
    using assms by (simp_all add: sink_wf_def MAX_MIDI_EVENT_SIZE_def)
  have l: "length (events snk) = MAX_MIDI_EVENT" using assms by (simp add: sink_wf_def)
  have sz: "size_ev (events snk ! j) \<le> 3" using assms by (simp add: sink_wf_def)
  have ne: "k < 3 \<Longrightarrow> i * 3 \<noteq> j * 3 + k \<and> i * 3 + 1 \<noteq> j * 3 + k \<and> i * 3 + 2 \<noteq> j * 3 + k" for k
    using assms(4) by presburger
  have "k < nat (size_ev (events snk ! j)) \<Longrightarrow>
        (memory snk)[i * 3 := cc, i * 3 + 1 := d0, i * 3 + 2 := d1] ! (j * 3 + k) = memory snk ! (j * 3 + k)" for k
    using sz ne [of k] by (simp add: nth_list_update_if)
  then show ?thesis
    using assms(2-4) b l by (simp add: event_bytes_def store_event_def Let_def)
qed

lemma event_bytes_store_same:
  assumes "sink_wf snk" "i < MAX_MIDI_EVENT" "0 \<le> sz" "sz \<le> 3"
  shows "event_bytes (store_event snk i t sz cc d0 d1) i = take (nat sz) [cc, d0, d1]"
proof -
  have b: "buffer_ev (events snk ! i) = i * 3"
    using assms by (simp add: sink_wf_def MAX_MIDI_EVENT_SIZE_def)
  have l: "length (events snk) = MAX_MIDI_EVENT" "length (memory snk) = MAX_MIDI_EVENT * 3"
    using assms by (simp_all add: sink_wf_def MAX_MIDI_EVENT_SIZE_def)
  have m: "i * 3 + 2 < length (memory snk)" using assms(2) l by simp
  from assms(3,4) have "sz = 0 \<or> sz = 1 \<or> sz = 2 \<or> sz = 3" by arith
  then show ?thesis
    using assms(2) b l m
    by (auto simp add: event_bytes_def store_event_def Let_def upt_rec nth_list_update)
qed

lemma emitted_0 [simp]: "emitted snk 0 = []"
  by (simp add: emitted_def)

lemma emitted_store:
  assumes "sink_wf snk" "n = Suc i" "i < MAX_MIDI_EVENT" "0 \<le> sz" "sz \<le> 3"
  shows "emitted (store_event snk i t sz cc d0 d1) n = emitted snk i @ [take (nat sz) [cc, d0, d1]]"
proof -
  have "map (event_bytes (store_event snk i t sz cc d0 d1)) [0..<i] = map (event_bytes snk) [0..<i]"
    using assms by (intro map_cong refl event_bytes_store_other) auto
  then show ?thesis
    using assms by (simp add: emitted_def event_bytes_store_same)
qed

subsection \<open>Running the decoder on concrete input\<close>

lemma pib_cont_simps:
  "pib_cont vs (Next, s) = ProcessInputBuffer vs s" "pib_cont vs (Break, s) = s"
  by (simp_all add: pib_cont_def)

lemma ProcessInputBuffer_Cons: "ProcessInputBuffer (v # vs) s = pib_cont vs (process_byte v s)"
  by (simp add: pib_cont_def)

lemmas midi_run = ReadMidiEvents_def process_byte_def emit_if_complete_def MidiPut_store
  FlushSysex_def GetDataLength_def sDataLength_def GetSystemCommonLength_def sizes_def Let_def
  new_sink_length_events ProcessInputBuffer_Cons pib_cont_simps word_le_nat_alt drop_bit_eq_div
  numeral_2_eq_2 [symmetric]

lemmas midi_out = sink_wf_new sink_wf_store emitted_store MAX_MIDI_EVENT_def

text \<open>
  Claim C1 (running status). A freshly opened decoder is handed the sink of a new driver
  and the device delivers the bytes 80 01 02 03 04 05: exactly two events are stored,
  80 01 02 and 80 03 04, and the data byte 05 stays in the decoder (\<open>data0\<close>, with
  \<open>dataIndex = 1\<close> under running status 80). In the next period (event count back at 0) the
  device delivers 06 C0 01 02: exactly three events are stored, 80 05 06, C0 01 and C0 02.
\<close>

theorem midi_running_status:
  "\<exists>snk s snk' s'.
     ReadMidiEvents new_sink 0 0 [Bytes [0x80, 0x01, 0x02, 0x03, 0x04, 0x05]] (Open new_device)
       = Inr (2, snk, s) \<and>
     emitted snk 2 = [[0x80, 0x01, 0x02], [0x80, 0x03, 0x04]] \<and>
     runningStatus s = 0x80 \<and> dataIndex s = 1 \<and> data0 s = 0x05 \<and>
     ReadMidiEvents snk 0 0 [Bytes [0x06, 0xC0, 0x01, 0x02]] s = Inr (3, snk', s') \<and>
     emitted snk' 3 = [[0x80, 0x05, 0x06], [0xC0, 0x01], [0xC0, 0x02]]"
proof -
  let ?k1 = "store_event (store_event new_sink 0 0 3 0x80 0x01 0x02) 1 0 3 0x80 0x03 0x04"
  let ?s1 = "\<lparr>runningStatus = 0x80, dataLength = 2, dataIndex = 1, data0 = 0x05, data1 = 0x04,
     inputProcessingSysex = False, inputSysexBufferCount = 0, inputSysexBuffer = replicate 1024 0,
     inputSampleFrame = 0, inputEventBufferIndex = 2, pInputEventBuffer = ?k1\<rparr>"
  let ?k2 = "store_event (store_event (store_event ?k1 0 0 3 0x80 0x05 0x06) 1 0 2 0xC0 0x01 0x06)
               2 0 2 0xC0 0x02 0x06"
  let ?s2 = "\<lparr>runningStatus = 0xC0, dataLength = 1, dataIndex = 0, data0 = 0x02, data1 = 0x06,
     inputProcessingSysex = False, inputSysexBufferCount = 0, inputSysexBuffer = replicate 1024 0,
     inputSampleFrame = 0, inputEventBufferIndex = 3, pInputEventBuffer = ?k2\<rparr>"
  have 1: "ReadMidiEvents new_sink 0 0 [Bytes [0x80, 0x01, 0x02, 0x03, 0x04, 0x05]] (Open new_device)
             = Inr (2, ?k1, ?s1)"
    by (simp add: Open_def new_device_def midi_run del: ProcessInputBuffer.simps(2))
  have 2: "emitted ?k1 2 = [[0x80, 0x01, 0x02], [0x80, 0x03, 0x04]]"
    by (simp add: midi_out)
  have 3: "ReadMidiEvents ?k1 0 0 [Bytes [0x06, 0xC0, 0x01, 0x02]] ?s1 = Inr (3, ?k2, ?s2)"
    by (simp add: midi_run del: ProcessInputBuffer.simps(2))
  have 4: "emitted ?k2 3 = [[0x80, 0x05, 0x06], [0xC0, 0x01], [0xC0, 0x02]]"
    by (simp add: midi_out)
  show ?thesis
    by (intro exI conjI, rule 1, rule 2, simp, simp, simp, rule 3, rule 4)
qed

subsection \<open>Safety of the event buffer\<close>

lemma keeps_refl [simp]: "keeps n snk snk"
  by (simp add: keeps_def)

lemma keeps_trans: "keeps n a b \<Longrightarrow> keeps m b c \<Longrightarrow> n \<le> m \<Longrightarrow> keeps n a c"
  by (simp add: keeps_def)

lemma extends_refl [simp]: "extends s s"
  by (simp add: extends_def)

lemma extends_trans: "extends a b \<Longrightarrow> extends b c \<Longrightarrow> extends a c"
  unfolding extends_def using keeps_trans by (metis le_trans)

lemma keeps_store:
  assumes "sink_wf snk" "i < MAX_MIDI_EVENT"
  shows "keeps i snk (store_event snk i t sz cc d0 d1)"
  unfolding keeps_def
proof (intro allI impI conjI)
  fix j assume "j < i"
  then show "events (store_event snk i t sz cc d0 d1) ! j = events snk ! j"
    by (simp add: store_event_def Let_def)
  from \<open>j < i\<close> assms show "event_bytes (store_event snk i t sz cc d0 d1) j = event_bytes snk j"
    by (intro event_bytes_store_other) auto
qed

lemma size_ev_store:
  "i < length (events snk) \<Longrightarrow>
   size_ev (events (store_event snk i t sz cc d0 d1) ! j) = (if j = i then sz else size_ev (events snk ! j))"
  by (simp add: store_event_def Let_def nth_list_update_if)

lemma MidiPut_ok:
  assumes "decoder_ok s" "0 \<le> dataLength s"
  shows "decoder_ok (MidiPut cc d0 d1 s) \<and> extends s (MidiPut cc d0 d1 s) \<and>
         dataLength (MidiPut cc d0 d1 s) = dataLength s"
proof (cases "cc = 0 \<or> inputEventBufferIndex s \<ge> length (events (pInputEventBuffer s))")
  case True
  then show ?thesis using assms by (simp add: MidiPut_store)
next
  case False
  let ?snk = "pInputEventBuffer s"
  let ?i = "inputEventBufferIndex s"
  from assms have wf: "sink_wf ?snk" and dl: "dataLength s \<le> 2"
    and st: "\<forall>i<?i. 1 \<le> size_ev (events ?snk ! i)"
    by (simp_all add: decoder_ok_def)
  from wf have len: "length (events ?snk) = MAX_MIDI_EVENT" by (simp add: sink_wf_def)
  with False have i: "?i < MAX_MIDI_EVENT" by simp
  let ?snk' = "store_event ?snk ?i (inputSampleFrame s) (dataLength s + 1) cc d0 d1"
  have eq: "MidiPut cc d0 d1 s = s\<lparr>pInputEventBuffer := ?snk', inputEventBufferIndex := ?i + 1\<rparr>"
    using False by (simp add: MidiPut_store)
  have wf': "sink_wf ?snk'" using wf dl by (intro sink_wf_store) auto
  have st': "\<forall>j<?i + 1. 1 \<le> size_ev (events ?snk' ! j)"
    using st i len assms(2) by (auto simp add: size_ev_store)
  have k: "keeps ?i ?snk ?snk'" using wf i by (rule keeps_store)
  show ?thesis
    unfolding eq using wf' st' k dl i by (simp add: decoder_ok_def extends_def)
qed


lemma emit_after:
  assumes "decoder_ok s" "pInputEventBuffer t = pInputEventBuffer s"
    "inputEventBufferIndex t = inputEventBufferIndex s" "inputSampleFrame t = inputSampleFrame s"
    "dataLength t \<le> 2"
  shows "decoder_ok (emit_if_complete t) \<and> extends s (emit_if_complete t)"
proof -
  have t: "decoder_ok t" using assms by (simp add: decoder_ok_def)
  have st: "extends s t" using assms by (simp add: extends_def)
  show ?thesis
  proof (cases "dataIndex t = dataLength t \<and> dataLength t \<ge> 0 \<and> runningStatus t \<noteq> 0")
    case False
    then have "emit_if_complete t = t" unfolding emit_if_complete_def by (rule if_not_P)
    then show ?thesis using t st by simp
  next
    case True
    let ?p = "MidiPut (runningStatus t) (data0 t) (data1 t) t"
    from True t have p: "decoder_ok ?p" "extends t ?p" "dataLength ?p = dataLength t"
      using MidiPut_ok [of t] by simp_all
    have e: "emit_if_complete t = ?p\<lparr>dataIndex := 0\<rparr>"
      using True by (simp add: emit_if_complete_def)
    have "decoder_ok (?p\<lparr>dataIndex := 0\<rparr>)" using p(1) by (simp add: decoder_ok_def)
    moreover have "extends t (?p\<lparr>dataIndex := 0\<rparr>)" using p(2) by (simp add: extends_def)
    ultimately show ?thesis unfolding e using st extends_trans by blast
  qed
qed

lemma GetDataLength_le: "GetDataLength v \<le> 2"
proof -
  have "unat v < 2 ^ 8" using unsigned_less [of v] by simp
  then have "unat (drop_bit 4 v) < 16"
    by (simp add: drop_bit_eq_div unat_div)
  moreover have "\<forall>i<16. sDataLength ! i \<le> 2"
    by (simp add: sDataLength_def All_less_Suc numeral_eq_Suc)
  ultimately show ?thesis by (simp add: GetDataLength_def)
qed


lemma drop_bit_4_system: "0xF0 \<le> cc \<Longrightarrow> drop_bit 4 cc = (0x0F :: 8 word)"
proof -
  assume "0xF0 \<le> cc"
  then have "240 \<le> unat cc" by (simp add: word_le_nat_alt)
  moreover have "unat cc < 2 ^ 8" using unsigned_less [of cc] by simp
  ultimately have "unat cc div 16 = 15" by simp
  then have "unat (drop_bit 4 cc) = unat (0x0F :: 8 word)"
    by (simp add: drop_bit_eq_div unat_div)
  then show ?thesis by (simp only: word_unat_eq_iff)
qed

lemma GetSystemCommonLength_system: "0xF0 \<le> cc \<Longrightarrow> GetSystemCommonLength cc = 0"
  by (simp add: GetSystemCommonLength_def drop_bit_4_system sizes_def)

lemma GetSystemCommonLength_le: "GetSystemCommonLength v \<le> 2"
proof -
  have "unat (drop_bit 4 v AND 0x07) \<le> unat (0x07 :: 8 word)"
    by (rule word_and_le1 [THEN word_le_nat_alt [THEN iffD1]])
  then have "unat (drop_bit 4 v AND 0x07) < 8" by simp
  moreover have "\<forall>i<8. sizes ! i \<le> 2"
    by (simp add: sizes_def All_less_Suc numeral_eq_Suc)
  ultimately show ?thesis by (simp add: GetSystemCommonLength_def)
qed

lemma process_byte_realtime: "0xF8 \<le> b \<Longrightarrow> process_byte b s = (Next, s)"
proof -
  assume h: "0xF8 \<le> b"
  from h have "0x80 \<le> b" "0xF0 \<le> b" "b \<noteq> 0xF0"
    by (auto simp add: word_le_nat_alt)
  with h show ?thesis by (simp add: process_byte_def)
qed

lemma process_byte_ok:
  assumes "decoder_ok s"
  shows "decoder_ok (snd (process_byte v s)) \<and> extends s (snd (process_byte v s))"
proof -
  note ea = emit_after [OF assms]
  have fl: "decoder_ok (FlushSysex s)" "extends s (FlushSysex s)"
    using assms by (simp_all add: FlushSysex_def decoder_ok_def extends_def)
  consider (sysex) "v = 0xF0" | (rt) "0xF8 \<le> v"
    | (common) "0xF0 \<le> v" "v \<noteq> 0xF0" "\<not> 0xF8 \<le> v"
    | (voice) "0x80 \<le> v" "\<not> 0xF0 \<le> v" | (data) "\<not> 0x80 \<le> v"
    by blast
  then show ?thesis
  proof cases
    case sysex
    have "process_byte v s = (Next, emit_if_complete
               (s\<lparr>inputProcessingSysex := True,
                  inputSysexBufferCount := 1,
                  inputSysexBuffer := (inputSysexBuffer s)[0 := 0xF0],
                  runningStatus := 0, dataLength := - 2, dataIndex := - 1\<rparr>))"
      using sysex by (simp add: process_byte_def word_le_nat_alt)
    then show ?thesis using ea by simp
  next
    case rt
    then show ?thesis using assms by (simp add: process_byte_realtime)
  next
    case common
    from common(1) have v80: "0x80 \<le> v" by (simp add: word_le_nat_alt)
    have "process_byte v s = (Next, emit_if_complete
            ((FlushSysex s)\<lparr>runningStatus := v, dataLength := 0, dataIndex := 0\<rparr>))"
      using common v80 by (simp add: process_byte_def GetSystemCommonLength_system)
    then show ?thesis using ea by (simp add: FlushSysex_def)
  next
    case voice
    let ?t = "(FlushSysex s)\<lparr>runningStatus := v, dataLength := GetDataLength v,
                dataIndex := (if GetDataLength v = - 1 then - 1 else 0)\<rparr>"
    have "process_byte v s = (Next, emit_if_complete ?t)"
      using voice by (simp add: process_byte_def Let_def)
    then show ?thesis using ea [of ?t] GetDataLength_le [of v] by (simp add: FlushSysex_def)
  next
    case data
    let ?t = "if inputProcessingSysex s then
             (if inputSysexBufferCount s \<noteq> length (inputSysexBuffer s)
              then s\<lparr>inputSysexBuffer := (inputSysexBuffer s)[inputSysexBufferCount s := v],
                     inputSysexBufferCount := inputSysexBufferCount s + 1\<rparr>
              else s)
           else if dataIndex s = 0 then s\<lparr>data0 := v, dataIndex := 1\<rparr>
           else if dataIndex s = 1 then s\<lparr>data1 := v, dataIndex := 2\<rparr>
           else s"
    have "process_byte v s = (Next, emit_if_complete ?t)"
      using data by (simp add: process_byte_def)
    moreover have "pInputEventBuffer ?t = pInputEventBuffer s"
      "inputEventBufferIndex ?t = inputEventBufferIndex s"
      "inputSampleFrame ?t = inputSampleFrame s" "dataLength ?t = dataLength s"
      by simp_all
    moreover have "dataLength s \<le> 2" using assms by (simp add: decoder_ok_def)
    ultimately show ?thesis using ea [of ?t] by simp
  qed
qed


lemma ProcessInputBuffer_ok:
  "decoder_ok s \<Longrightarrow> decoder_ok (ProcessInputBuffer bs s) \<and> extends s (ProcessInputBuffer bs s)"
proof (induction bs arbitrary: s)
  case Nil
  then show ?case by simp
next
  case (Cons v vs)
  obtain x s' where ps: "process_byte v s = (x, s')" by (cases "process_byte v s")
  with process_byte_ok [OF Cons.prems, of v] have s': "decoder_ok s'" "extends s s'" by simp_all
  show ?case
  proof (cases x)
    case Next
    with ps have "ProcessInputBuffer (v # vs) s = ProcessInputBuffer vs s'" by simp
    with Cons.IH [OF s'(1)] s'(2) show ?thesis using extends_trans by auto
  next
    case Break
    with ps have "ProcessInputBuffer (v # vs) s = s'" by simp
    with s' show ?thesis by simp
  qed
qed

lemma FillInputBuffer_ok:
  "decoder_ok s \<Longrightarrow> FillInputBuffer reads s = Inr s' \<Longrightarrow> decoder_ok s' \<and> extends s s'"
proof (induction reads s arbitrary: s' rule: FillInputBuffer.induct)
  case (1 s)
  then show ?case by simp
next
  case (2 e rs s)
  then show ?case by simp
next
  case (3 bs rs s)
  from ProcessInputBuffer_ok [OF "3.prems"(1), of bs]
  have p: "decoder_ok (ProcessInputBuffer bs s)" "extends s (ProcessInputBuffer bs s)" by simp_all
  from "3.IH" [OF p(1)] "3.prems"(2)
  have "decoder_ok s'" "extends (ProcessInputBuffer bs s) s'" by simp_all
  with p(2) show ?case using extends_trans by blast
qed

lemma ReadMidiEvents_ok:
  assumes "sink_ok snk startIndex" "dataLength dev \<le> 2"
    "ReadMidiEvents snk startIndex frame reads dev = Inr (n, snk', dev')"
  shows "sink_ok snk' (startIndex + n) \<and> dataLength dev' \<le> 2 \<and> keeps startIndex snk snk'"
proof -
  let ?s = "dev\<lparr>inputSampleFrame := frame, inputEventBufferIndex := startIndex,
                pInputEventBuffer := snk\<rparr>"
  have ok: "decoder_ok ?s" using assms(1,2) by (simp add: decoder_ok_def sink_ok_def)
  have "\<exists>s'. FillInputBuffer reads ?s = Inr s'"
    using assms(3) by (cases "FillInputBuffer reads ?s") (simp_all add: ReadMidiEvents_def)
  then obtain s' where f: "FillInputBuffer reads ?s = Inr s'" ..
  with assms(3) have r: "n = inputEventBufferIndex s' - startIndex" "snk' = pInputEventBuffer s'"
      "dev' = s'"
    by (auto simp add: ReadMidiEvents_def)
  from FillInputBuffer_ok [OF ok f] have s': "decoder_ok s'" "extends ?s s'" by simp_all
  from s'(2) have le: "startIndex \<le> inputEventBufferIndex s'" by (simp add: extends_def)
  with r have n: "startIndex + n = inputEventBufferIndex s'" by simp
  show ?thesis
    using s' r(2,3) unfolding n by (simp add: decoder_ok_def sink_ok_def extends_def)
qed

lemma ReadMidiData_loop_ok:
  "sink_ok snk count \<Longrightarrow> \<forall>dev\<in>set devs. dataLength dev \<le> 2 \<Longrightarrow>
   ReadMidiData_loop frame reads devs count snk = Inr (devs', count', snk') \<Longrightarrow>
   sink_ok snk' count' \<and> (\<forall>dev\<in>set devs'. dataLength dev \<le> 2) \<and> count \<le> count' \<and>
   keeps count snk snk'"
proof (induction devs arbitrary: reads count snk devs' count' snk')
  case Nil
  then show ?case by simp
next
  case (Cons dev devs)
  let ?r = "case reads of [] \<Rightarrow> [] | r # _ \<Rightarrow> r"
  from Cons.prems(3) obtain n k d1 ds1 where
    1: "ReadMidiEvents snk count frame ?r dev = Inr (n, k, d1)" and
    2: "ReadMidiData_loop frame (tl reads) devs (count + n) k = Inr (ds1, count', snk')" and
    3: "devs' = d1 # ds1"
    by (auto split: sum.splits)
  from ReadMidiEvents_ok [OF Cons.prems(1) _ 1] Cons.prems(2)
  have a: "sink_ok k (count + n)" "dataLength d1 \<le> 2" "keeps count snk k" by simp_all
  from Cons.IH [OF a(1) _ 2] Cons.prems(2)
  have b: "sink_ok snk' count'" "\<forall>dev\<in>set ds1. dataLength dev \<le> 2" "count + n \<le> count'"
    "keeps (count + n) k snk'" by simp_all
  have "keeps count snk snk'" using a(3) b(4) by (rule keeps_trans) simp
  with a b 3 show ?case by simp
qed

lemma ReadMidiData_ok:
  assumes "driver_ok d" "ReadMidiData frame reads d = Inr d'"
  shows "driver_ok d' \<and> midiEventCount d \<le> midiEventCount d' \<and>
         keeps (midiEventCount d) (midiEvents d) (midiEvents d')"
proof -
  from assms(2) obtain devs count snk where
    l: "ReadMidiData_loop frame reads (midiDevices d) (midiEventCount d) (midiEvents d) = Inr (devs, count, snk)"
    and d': "d' = d\<lparr>midiEventCount := count, midiEvents := snk, midiDevices := devs\<rparr>"
    by (auto simp add: ReadMidiData_def split: sum.splits)
  from assms(1) have "sink_ok (midiEvents d) (midiEventCount d)"
    "\<forall>dev\<in>set (midiDevices d). dataLength dev \<le> 2" by (simp_all add: driver_ok_def)
  from ReadMidiData_loop_ok [OF this l] show ?thesis by (simp add: d' driver_ok_def)
qed

lemma driver_ok_new: "driver_ok (new_driver n)"
  by (simp add: driver_ok_def new_driver_def sink_ok_def sink_wf_new Open_def MAX_MIDI_EVENT_def)

lemma run_ops_ok: "driver_ok d \<Longrightarrow> run_ops ops d = Inr d' \<Longrightarrow> driver_ok d'"
proof (induction ops d arbitrary: d' rule: run_ops.induct)
  case (1 d)
  then show ?case by simp
next
  case (2 ops d)
  from "2.prems"(1) have "driver_ok (d\<lparr>midiEventCount := 0\<rparr>)"
    by (simp add: driver_ok_def sink_ok_def)
  from "2.IH" [OF this] "2.prems"(2) show ?case by simp
next
  case (3 frame reads ops d)
  from "3.prems"(2) obtain d1 where 1: "ReadMidiData frame reads d = Inr d1"
    and 2: "run_ops ops d1 = Inr d'" by (auto split: sum.splits)
  from ReadMidiData_ok [OF "3.prems"(1) 1] have "driver_ok d1" by simp
  from "3.IH" [OF 1 this 2] show ?case .
qed


text \<open>
  Claim C9 (event buffer overflow safety). Whatever the MIDI devices deliver, over any
  number of periods and of \<open>ReadMidiData\<close> calls on a driver with any number of opened
  devices: the event count never exceeds \<open>MAX_MIDI_EVENT\<close>, the capacity of the event
  vector; every stored event has a size from 1 to 3 (so the \<open>assert\<close> in \<open>MidiPut\<close>
  holds) and owns the three bytes at its own offset inside the byte vector; a further
  \<open>ReadMidiData\<close> leaves the events stored so far and their bytes as they were; and
  \<open>MidiPut\<close> on a full buffer returns the state unchanged.
\<close>

theorem midi_event_buffer_safe:
  "(\<forall>ops n d. run_ops ops (new_driver n) = Inr d \<longrightarrow>
      midiEventCount d \<le> MAX_MIDI_EVENT \<and>
      length (events (midiEvents d)) = MAX_MIDI_EVENT \<and>
      (\<forall>i<midiEventCount d.
          1 \<le> size_ev (events (midiEvents d) ! i) \<and> size_ev (events (midiEvents d) ! i) \<le> 3 \<and>
          buffer_ev (events (midiEvents d) ! i) = i * MAX_MIDI_EVENT_SIZE \<and>
          buffer_ev (events (midiEvents d) ! i) + MAX_MIDI_EVENT_SIZE \<le> length (memory (midiEvents d))) \<and>
      (\<forall>frame reads d'. ReadMidiData frame reads d = Inr d' \<longrightarrow>
          midiEventCount d \<le> midiEventCount d' \<and>
          (\<forall>i<midiEventCount d.
              events (midiEvents d') ! i = events (midiEvents d) ! i \<and>
              event_bytes (midiEvents d') i = event_bytes (midiEvents d) i))) \<and>
   (\<forall>cc d0 d1 s. length (events (pInputEventBuffer s)) \<le> inputEventBufferIndex s \<longrightarrow>
      MidiPut cc d0 d1 s = s)"
proof (intro conjI allI impI)
  fix cc d0 d1 and s :: AlsaMidiDeviceImpl
  assume "length (events (pInputEventBuffer s)) \<le> inputEventBufferIndex s"
  then show "MidiPut cc d0 d1 s = s" by (simp add: MidiPut_def)
next
  fix ops n d
  assume r: "run_ops ops (new_driver n) = Inr d"
  from run_ops_ok [OF driver_ok_new r] have ok: "driver_ok d" .
  then have wf: "sink_wf (midiEvents d)" and c: "midiEventCount d \<le> MAX_MIDI_EVENT"
    and st: "\<forall>i<midiEventCount d. 1 \<le> size_ev (events (midiEvents d) ! i)"
    by (simp_all add: driver_ok_def sink_ok_def)
  show "midiEventCount d \<le> MAX_MIDI_EVENT" by (rule c)
  show "length (events (midiEvents d)) = MAX_MIDI_EVENT" using wf by (simp add: sink_wf_def)
  {
    fix i assume i: "i < midiEventCount d"
    with c have i': "i < MAX_MIDI_EVENT" by simp
    show "1 \<le> size_ev (events (midiEvents d) ! i)" using st i by simp
    show "size_ev (events (midiEvents d) ! i) \<le> 3" using wf i' by (simp add: sink_wf_def)
    show "buffer_ev (events (midiEvents d) ! i) = i * MAX_MIDI_EVENT_SIZE"
      using wf i' by (simp add: sink_wf_def)
    show "buffer_ev (events (midiEvents d) ! i) + MAX_MIDI_EVENT_SIZE \<le> length (memory (midiEvents d))"
      using wf i' by (simp add: sink_wf_def MAX_MIDI_EVENT_SIZE_def)
  }
  {
    fix frame reads d'
    assume "ReadMidiData frame reads d = Inr d'"
    from ReadMidiData_ok [OF ok this]
    have k: "midiEventCount d \<le> midiEventCount d'"
      "keeps (midiEventCount d) (midiEvents d) (midiEvents d')" by simp_all
    show "midiEventCount d \<le> midiEventCount d'" by (rule k)
    fix i assume "i < midiEventCount d"
    with k(2) show "events (midiEvents d') ! i = events (midiEvents d) ! i"
      "event_bytes (midiEvents d') i = event_bytes (midiEvents d) i"
      by (simp_all add: keeps_def)
  }
qed

theorem midi_event_buffer_safe_witness:
  "(\<exists>d. run_ops [BeginPeriod, ReadData 0 [[Bytes [0x90, 0x3C, 0x7F]]]] (new_driver 1) = Inr d \<and>
        midiEventCount d = 1 \<and> midiEventCount d \<le> MAX_MIDI_EVENT \<and>
        size_ev (events (midiEvents d) ! 0) = 3 \<and>
        buffer_ev (events (midiEvents d) ! 0) + MAX_MIDI_EVENT_SIZE \<le> length (memory (midiEvents d))) \<and>
   MidiPut 0x90 0x3C 0x7F
     ((Open new_device)\<lparr>inputEventBufferIndex := MAX_MIDI_EVENT, pInputEventBuffer := new_sink\<rparr>)
     = (Open new_device)\<lparr>inputEventBufferIndex := MAX_MIDI_EVENT, pInputEventBuffer := new_sink\<rparr>"
proof -
  let ?dev = "\<lparr>runningStatus = 0x90, dataLength = 2, dataIndex = 0, data0 = 0x3C, data1 = 0x7F,
     inputProcessingSysex = False, inputSysexBufferCount = 0, inputSysexBuffer = replicate 1024 0,
     inputSampleFrame = 0, inputEventBufferIndex = 1,
     pInputEventBuffer = store_event new_sink 0 0 3 0x90 0x3C 0x7F\<rparr>"
  let ?d = "\<lparr>midiEventCount = 1, midiEvents = store_event new_sink 0 0 3 0x90 0x3C 0x7F,
     midiDevices = [?dev]\<rparr>"
  have r: "run_ops [BeginPeriod, ReadData 0 [[Bytes [0x90, 0x3C, 0x7F]]]] (new_driver 1) = Inr ?d"
    by (simp add: new_driver_def ReadMidiData_def Open_def new_device_def midi_run
          del: ProcessInputBuffer.simps(2))
  have sz: "size_ev (events (midiEvents ?d) ! 0) = 3"
    by (simp add: size_ev_store new_sink_length_events)
  have full: "length (events (pInputEventBuffer
      ((Open new_device)\<lparr>inputEventBufferIndex := MAX_MIDI_EVENT, pInputEventBuffer := new_sink\<rparr>)))
      \<le> inputEventBufferIndex
      ((Open new_device)\<lparr>inputEventBufferIndex := MAX_MIDI_EVENT, pInputEventBuffer := new_sink\<rparr>)"
    by (simp add: new_sink_length_events MAX_MIDI_EVENT_def)
  note a = midi_event_buffer_safe [THEN conjunct1, rule_format, OF r]
  note b = midi_event_buffer_safe [THEN conjunct2, rule_format, OF full]
  have c: "midiEventCount ?d = 1" by simp
  have "buffer_ev (events (midiEvents ?d) ! 0) + MAX_MIDI_EVENT_SIZE \<le> length (memory (midiEvents ?d))"
    using a [THEN conjunct2, THEN conjunct2, THEN conjunct1, rule_format, of 0] c by simp
  moreover have "midiEventCount ?d \<le> MAX_MIDI_EVENT" using a by blast
  ultimately show ?thesis using r sz b c by blast
qed

subsection \<open>System Realtime, System Common and SysEx\<close>

lemma emitted_by_Inr: "emitted_by (Inr (n, snk, s)) = Some (emitted snk n)"
  by (simp add: emitted_by_def)

lemma ProcessInputBuffer_filter_realtime:
  "ProcessInputBuffer (filter (\<lambda>b. b < 0xF8) bs) s = ProcessInputBuffer bs s"
proof (induction bs arbitrary: s)
  case Nil
  show ?case by simp
next
  case (Cons b bs)
  show ?case
  proof (cases "b < 0xF8")
    case True
    then show ?thesis using Cons.IH by (simp split: prod.splits loop_exit.splits)
  next
    case False
    then have "0xF8 \<le> b" by simp
    then show ?thesis using Cons.IH by (simp add: process_byte_realtime)
  qed
qed

text \<open>
  Claim C4 (System Realtime transparency). A byte from F8 to FF leaves the whole decoder
  state as it is (running status, data bytes and index, SysEx state, sink) and stores no
  event; so a buffer decodes exactly as the same buffer with these bytes removed. The
  bytes 90 F8 3C FA 7F give exactly one event, 90 3C 7F.
\<close>

theorem midi_realtime_transparent:
  "(\<forall>b s. 0xF8 \<le> b \<longrightarrow> process_byte b s = (Next, s)) \<and>
   (\<forall>bs s. ProcessInputBuffer bs s = ProcessInputBuffer (filter (\<lambda>b. b < 0xF8) bs) s) \<and>
   emitted_by (ReadMidiEvents new_sink 0 0 [Bytes [0x90, 0xF8, 0x3C, 0xFA, 0x7F]] (Open new_device))
     = Some [[0x90, 0x3C, 0x7F]]"
proof (intro conjI allI impI)
  show "emitted_by (ReadMidiEvents new_sink 0 0 [Bytes [0x90, 0xF8, 0x3C, 0xFA, 0x7F]] (Open new_device))
     = Some [[0x90, 0x3C, 0x7F]]"
    by (simp add: Open_def new_device_def midi_run emitted_by_Inr midi_out del: ProcessInputBuffer.simps(2))
qed (simp_all add: process_byte_realtime ProcessInputBuffer_filter_realtime)

theorem midi_realtime_transparent_witness:
  "(0xF8 :: 8 word) \<le> 0xFA \<and> process_byte 0xFA (Open new_device) = (Next, Open new_device)"
  using midi_realtime_transparent by (simp add: word_le_nat_alt)

text \<open>
  Claim C3 (System Common lengths), evaluated on the code: \<open>GetSystemCommonLength\<close>
  indexes its table with \<open>(cc >> 4) & 0x07\<close>, which is 7 for every byte from F0 to FF, so
  the length found is always 0. F2 is therefore complete at once: the one-byte event F2
  is stored before any data byte arrives, and the two data bytes that follow store nothing.
\<close>

theorem system_common_length_always_zero:
  "GetSystemCommonLength 0xF1 = 0 \<and> GetSystemCommonLength 0xF2 = 0 \<and> GetSystemCommonLength 0xF3 = 0 \<and>
   emitted_by (ReadMidiEvents new_sink 0 0 [Bytes [0xF2]] (Open new_device)) = Some [[0xF2]] \<and>
   emitted_by (ReadMidiEvents new_sink 0 0 [Bytes [0xF2, 0x11, 0x22]] (Open new_device)) = Some [[0xF2]]"
  by (simp add: Open_def new_device_def midi_run emitted_by_Inr midi_out del: ProcessInputBuffer.simps(2))

text \<open>
  Claim C5 as stated fails: the bytes F0 76 3B and then 77 F7 90 40 50, processed in two
  calls of \<open>ProcessInputBuffer\<close>, store two events, F7 and 90 40 50, not one.
\<close>

theorem midi_sysex_split_counterexample:
  "emitted_by (ReadMidiEvents new_sink 0 0
      [Bytes [0xF0, 0x76, 0x3B], Bytes [0x77, 0xF7, 0x90, 0x40, 0x50]] (Open new_device))
    = Some [[0xF7], [0x90, 0x40, 0x50]]"
  by (simp add: Open_def new_device_def midi_run emitted_by_Inr midi_out del: ProcessInputBuffer.simps(2))

lemma process_byte_sysex_begin:
  "\<exists>s'. process_byte 0xF0 s = (Next, s') \<and> sysex_open s' \<and>
        pInputEventBuffer s' = pInputEventBuffer s \<and> inputEventBufferIndex s' = inputEventBufferIndex s"
  by (simp add: process_byte_def emit_if_complete_def sysex_open_def word_le_nat_alt)

lemma process_byte_sysex_data:
  assumes "sysex_open s" "d < 0x80"
  shows "\<exists>s'. process_byte d s = (Next, s') \<and> sysex_open s' \<and>
        pInputEventBuffer s' = pInputEventBuffer s \<and> inputEventBufferIndex s' = inputEventBufferIndex s"
proof -
  from assms(2) have "\<not> 0x80 \<le> d" by simp
  with assms(1) show ?thesis
    by (simp add: process_byte_def emit_if_complete_def sysex_open_def)
qed

lemma ProcessInputBuffer_sysex_data:
  "sysex_open s \<Longrightarrow> \<forall>d\<in>set ds. d < 0x80 \<Longrightarrow>
     sysex_open (ProcessInputBuffer ds s) \<and>
     pInputEventBuffer (ProcessInputBuffer ds s) = pInputEventBuffer s \<and>
     inputEventBufferIndex (ProcessInputBuffer ds s) = inputEventBufferIndex s"
proof (induction ds arbitrary: s)
  case Nil
  then show ?case by simp
next
  case (Cons d ds)
  from Cons.prems obtain s' where s': "process_byte d s = (Next, s')" "sysex_open s'"
      "pInputEventBuffer s' = pInputEventBuffer s" "inputEventBufferIndex s' = inputEventBufferIndex s"
    using process_byte_sysex_data [of s d] by auto
  from Cons.IH [of s'] s' Cons.prems show ?case by simp
qed

lemma process_byte_F0:
  "process_byte 0xF0 s = (Next,
     s\<lparr>inputProcessingSysex := True, inputSysexBufferCount := 1,
       inputSysexBuffer := (inputSysexBuffer s)[0 := 0xF0],
       runningStatus := 0, dataLength := - 2, dataIndex := - 1\<rparr>)"
  by (simp add: process_byte_def emit_if_complete_def word_le_nat_alt)

lemma process_byte_common:
  assumes "0xF0 < v" "v < 0xF8"
  shows "process_byte v s = (Next,
     (MidiPut v (data0 s) (data1 s)
        ((FlushSysex s)\<lparr>runningStatus := v, dataLength := 0, dataIndex := 0\<rparr>))\<lparr>dataIndex := 0\<rparr>)"
proof -
  from assms have c: "0x80 \<le> v" "0xF0 \<le> v" "v \<noteq> 0xF0" "\<not> 0xF8 \<le> v" "v \<noteq> 0"
    by (auto simp add: word_le_nat_alt word_less_nat_alt)
  then show ?thesis
    by (simp add: process_byte_def GetSystemCommonLength_system emit_if_complete_def FlushSysex_def)
qed

lemma GetDataLength_voice:
  assumes "0x80 \<le> v" "v < 0xF0"
  shows "GetDataLength v = 1 \<or> GetDataLength v = 2"
proof -
  from assms have "128 \<le> unat v" "unat v < 240"
    by (simp_all add: word_le_nat_alt word_less_nat_alt)
  then have "8 \<le> unat v div 16" "unat v div 16 < 15" by simp_all
  then have b: "8 \<le> unat (drop_bit 4 v)" "unat (drop_bit 4 v) < 15"
    by (simp_all add: drop_bit_eq_div unat_div)
  have "\<forall>i<15. 8 \<le> i \<longrightarrow> sDataLength ! i = 1 \<or> sDataLength ! i = 2"
    by (simp add: sDataLength_def All_less_Suc numeral_eq_Suc)
  with b show ?thesis by (simp add: GetDataLength_def)
qed

lemma process_byte_voice:
  assumes "0x80 \<le> v" "v < 0xF0"
  shows "process_byte v s = (Next,
     (FlushSysex s)\<lparr>runningStatus := v, dataLength := GetDataLength v, dataIndex := 0\<rparr>)"
proof -
  from assms have c: "\<not> 0xF0 \<le> v" by simp
  from GetDataLength_voice [OF assms] have "GetDataLength v \<noteq> - 1" "GetDataLength v \<noteq> 0"
    by auto
  with assms(1) c show ?thesis
    by (simp add: process_byte_def emit_if_complete_def Let_def FlushSysex_def)
qed

lemma process_byte_data:
  assumes "v < 0x80"
  shows "process_byte v s = (Next, emit_if_complete
          (if inputProcessingSysex s then
             (if inputSysexBufferCount s \<noteq> length (inputSysexBuffer s)
              then s\<lparr>inputSysexBuffer := (inputSysexBuffer s)[inputSysexBufferCount s := v],
                     inputSysexBufferCount := inputSysexBufferCount s + 1\<rparr>
              else s)
           else if dataIndex s = 0 then s\<lparr>data0 := v, dataIndex := 1\<rparr>
           else if dataIndex s = 1 then s\<lparr>data1 := v, dataIndex := 2\<rparr>
           else s))"
proof -
  from assms have "\<not> 0x80 \<le> v" by simp
  then show ?thesis by (simp add: process_byte_def)
qed

lemma process_byte_flushed:
  assumes "0x80 \<le> v" "v < 0xF8"
  shows "process_byte v s = process_byte v (FlushSysex s)"
proof -
  consider (sysex) "v = 0xF0" | (common) "0xF0 < v" | (voice) "v < 0xF0"
    by (metis linorder_less_linear)
  then show ?thesis
  proof cases
    case sysex
    then show ?thesis by (simp add: process_byte_F0 FlushSysex_def)
  next
    case common
    then show ?thesis using assms(2) by (simp add: process_byte_common FlushSysex_def)
  next
    case voice
    then show ?thesis using assms(1) by (simp add: process_byte_voice FlushSysex_def)
  qed
qed

lemma process_byte_common_stored:
  assumes "0xF0 < v" "v < 0xF8" "sink_wf (pInputEventBuffer s)"
    "inputEventBufferIndex s < MAX_MIDI_EVENT"
  shows "\<exists>s'. process_byte v s = (Next, s') \<and> \<not> inputProcessingSysex s' \<and>
    inputEventBufferIndex s' = inputEventBufferIndex s + 1 \<and>
    event_bytes (pInputEventBuffer s') (inputEventBufferIndex s) = [v] \<and>
    keeps (inputEventBufferIndex s) (pInputEventBuffer s) (pInputEventBuffer s')"
proof -
  let ?i = "inputEventBufferIndex s"
  let ?snk = "store_event (pInputEventBuffer s) ?i (inputSampleFrame s) 1 v (data0 s) (data1 s)"
  let ?s' = "s\<lparr>inputProcessingSysex := False, runningStatus := v, dataLength := 0,
      pInputEventBuffer := ?snk, inputEventBufferIndex := ?i + 1, dataIndex := 0\<rparr>"
  from assms(1) have v0: "v \<noteq> 0" by (auto simp add: word_less_nat_alt)
  from assms(3) have len: "length (events (pInputEventBuffer s)) = MAX_MIDI_EVENT"
    by (simp add: sink_wf_def)
  have "process_byte v s = (Next, ?s')"
    using v0 len assms(4) by (simp add: process_byte_common [OF assms(1,2)] MidiPut_store FlushSysex_def)
  moreover have "event_bytes ?snk ?i = [v]"
    using assms(3,4) by (simp add: event_bytes_store_same)
  moreover have "keeps ?i (pInputEventBuffer s) ?snk"
    using assms(3,4) by (rule keeps_store)
  ultimately show ?thesis by simp
qed

lemma sysex_equiv_refl: "sysex_equiv s s"
  by (simp add: sysex_equiv_def)

lemma MidiPut_equiv:
  "sysex_equiv s t \<Longrightarrow> sysex_equiv (MidiPut cc d0 d1 s) (MidiPut cc d0 d1 t)"
  by (simp add: sysex_equiv_def MidiPut_store)

lemma emit_equiv:
  assumes "sysex_equiv s t"
  shows "sysex_equiv (emit_if_complete s) (emit_if_complete t)"
proof -
  from assms have e: "runningStatus s = runningStatus t" "data0 s = data0 t" "data1 s = data1 t"
    "dataIndex s = dataIndex t" "dataLength s = dataLength t"
    by (simp_all add: sysex_equiv_def)
  have "sysex_equiv ((MidiPut (runningStatus t) (data0 t) (data1 t) s)\<lparr>dataIndex := 0\<rparr>)
      ((MidiPut (runningStatus t) (data0 t) (data1 t) t)\<lparr>dataIndex := 0\<rparr>)"
    using MidiPut_equiv [OF assms, of "runningStatus t" "data0 t" "data1 t"]
    by (simp add: sysex_equiv_def)
  then show ?thesis using assms by (simp add: emit_if_complete_def e)
qed

lemma process_byte_equiv:
  assumes "sysex_equiv s t"
  shows "fst (process_byte v s) = fst (process_byte v t) \<and>
         sysex_equiv (snd (process_byte v s)) (snd (process_byte v t))"
proof -
  consider (sysex) "v = 0xF0" | (rt) "0xF8 \<le> v" | (common) "0xF0 < v" "v < 0xF8"
    | (voice) "0x80 \<le> v" "v < 0xF0" | (data) "v < 0x80"
    by (metis linorder_less_linear linorder_not_less)
  then show ?thesis
  proof cases
    case sysex
    then show ?thesis using assms by (simp add: process_byte_F0 sysex_equiv_def)
  next
    case rt
    then show ?thesis using assms by (simp add: process_byte_realtime)
  next
    case common
    have "sysex_equiv ((FlushSysex s)\<lparr>runningStatus := v, dataLength := 0, dataIndex := 0\<rparr>)
        ((FlushSysex t)\<lparr>runningStatus := v, dataLength := 0, dataIndex := 0\<rparr>)"
      using assms by (simp add: sysex_equiv_def FlushSysex_def)
    from MidiPut_equiv [OF this, of v "data0 t" "data1 t"] assms
    show ?thesis by (simp add: process_byte_common [OF common] sysex_equiv_def)
  next
    case voice
    then show ?thesis using assms by (simp add: process_byte_voice sysex_equiv_def FlushSysex_def)
  next
    case data
    let ?f = "\<lambda>s. if inputProcessingSysex s then
             (if inputSysexBufferCount s \<noteq> length (inputSysexBuffer s)
              then s\<lparr>inputSysexBuffer := (inputSysexBuffer s)[inputSysexBufferCount s := v],
                     inputSysexBufferCount := inputSysexBufferCount s + 1\<rparr>
              else s)
           else if dataIndex s = 0 then s\<lparr>data0 := v, dataIndex := 1\<rparr>
           else if dataIndex s = 1 then s\<lparr>data1 := v, dataIndex := 2\<rparr>
           else s"
    have "sysex_equiv (?f s) (?f t)"
      using assms by (simp add: sysex_equiv_def)
    from emit_equiv [OF this] show ?thesis by (simp add: process_byte_data [OF data])
  qed
qed

lemma ProcessInputBuffer_equiv:
  "sysex_equiv s t \<Longrightarrow> sysex_equiv (ProcessInputBuffer bs s) (ProcessInputBuffer bs t)"
proof (induction bs arbitrary: s t)
  case Nil
  then show ?case by simp
next
  case (Cons v bs)
  obtain x s' where s': "process_byte v s = (x, s')" by (cases "process_byte v s")
  obtain y t' where t': "process_byte v t = (y, t')" by (cases "process_byte v t")
  from process_byte_equiv [OF Cons.prems, of v] s' t' have e: "x = y" "sysex_equiv s' t'"
    by simp_all
  show ?case
  proof (cases y)
    case Next
    with e s' t' Cons.IH [OF e(2)] show ?thesis by simp
  next
    case Break
    with e s' t' show ?thesis by simp
  qed
qed

lemma sysex_data_equiv:
  assumes "inputProcessingSysex s" "runningStatus s = 0" "\<forall>d\<in>set ds. d < 0x80"
  shows "sysex_equiv (ProcessInputBuffer ds s) s"
  using assms
proof (induction ds arbitrary: s)
  case Nil
  then show ?case by (simp add: sysex_equiv_refl)
next
  case (Cons d ds)
  let ?s' = "if inputSysexBufferCount s \<noteq> length (inputSysexBuffer s)
              then s\<lparr>inputSysexBuffer := (inputSysexBuffer s)[inputSysexBufferCount s := d],
                     inputSysexBufferCount := inputSysexBufferCount s + 1\<rparr>
              else s"
  from Cons.prems have d: "d < 0x80" by simp
  have p: "process_byte d s = (Next, ?s')"
    using Cons.prems(1,2) by (simp add: process_byte_data [OF d] emit_if_complete_def)
  have e: "sysex_equiv ?s' s" by (simp add: sysex_equiv_def)
  have "sysex_equiv (ProcessInputBuffer ds ?s') ?s'"
    using Cons.prems by (intro Cons.IH) simp_all
  with e have "sysex_equiv (ProcessInputBuffer ds ?s') s"
    by (simp add: sysex_equiv_def)
  then show ?case by (simp add: p del: ProcessInputBuffer.simps(2) add: ProcessInputBuffer_Cons pib_cont_simps)
qed

lemma sysex_equiv_trans: "sysex_equiv a b \<Longrightarrow> sysex_equiv b c \<Longrightarrow> sysex_equiv a c"
  by (simp add: sysex_equiv_def)

lemma sysex_content_ignored:
  assumes "\<forall>d\<in>set ds. d < 0x80" "\<forall>d\<in>set ds'. d < 0x80"
  shows "sysex_equiv (ProcessInputBuffer rest (ProcessInputBuffer ds' (ProcessInputBuffer (0xF0 # ds) s)))
           (ProcessInputBuffer rest (ProcessInputBuffer [0xF0] s))"
proof -
  let ?s0 = "s\<lparr>inputProcessingSysex := True, inputSysexBufferCount := 1,
       inputSysexBuffer := (inputSysexBuffer s)[0 := 0xF0],
       runningStatus := 0, dataLength := - 2, dataIndex := - 1\<rparr>"
  have a: "ProcessInputBuffer (0xF0 # ds) s = ProcessInputBuffer ds ?s0"
    and b: "ProcessInputBuffer [0xF0] s = ?s0"
    by (simp_all add: process_byte_F0)
  have 1: "sysex_equiv (ProcessInputBuffer ds ?s0) ?s0"
    using assms(1) by (intro sysex_data_equiv) simp_all
  then have o: "inputProcessingSysex (ProcessInputBuffer ds ?s0)"
      "runningStatus (ProcessInputBuffer ds ?s0) = 0"
    by (simp_all add: sysex_equiv_def)
  have 2: "sysex_equiv (ProcessInputBuffer ds' (ProcessInputBuffer ds ?s0)) (ProcessInputBuffer ds ?s0)"
    using o assms(2) by (rule sysex_data_equiv)
  from sysex_equiv_trans [OF 2 1] show ?thesis
    unfolding a b by (rule ProcessInputBuffer_equiv)
qed

text \<open>
  Claim C5, amended (SysEx dropped across buffer boundaries). The SysEx content is never
  emitted, and the byte that ends the SysEx is decoded as usual:

  \<^item> from any decoder state, F0 followed by any data bytes, in the same buffer and in a
    later one, stores no event and leaves the decoder inside the SysEx;
  \<^item> whatever bytes follow, the decoder then goes on exactly as if the SysEx had had no
    content: the two runs differ at most in the accumulation buffer, which nothing reads;
  \<^item> a status byte from 80 to F7 is decoded from a state inside a SysEx exactly as from the
    same state outside of it (\<open>FlushSysex\<close> only leaves the SysEx, it emits nothing);
  \<^item> a voice status byte, 80 to EF, stores nothing by itself;
  \<^item> F7, a System Common byte of length 0, is itself stored as a one-byte event, after the
    events already stored, which are kept.

  So F0 76 3B in one period stores nothing, and 77 F7 90 40 50 in the next stores exactly
  two events, F7 and 90 40 50.
\<close>

theorem midi_sysex_dropped:
  "(\<forall>s ds ds'. (\<forall>d\<in>set ds. d < 0x80) \<longrightarrow> (\<forall>d\<in>set ds'. d < 0x80) \<longrightarrow>
      pInputEventBuffer (ProcessInputBuffer ds' (ProcessInputBuffer (0xF0 # ds) s)) = pInputEventBuffer s \<and>
      inputEventBufferIndex (ProcessInputBuffer ds' (ProcessInputBuffer (0xF0 # ds) s))
        = inputEventBufferIndex s \<and>
      inputProcessingSysex (ProcessInputBuffer ds' (ProcessInputBuffer (0xF0 # ds) s))) \<and>
   (\<forall>s ds ds' rest. (\<forall>d\<in>set ds. d < 0x80) \<longrightarrow> (\<forall>d\<in>set ds'. d < 0x80) \<longrightarrow>
      sysex_equiv (ProcessInputBuffer rest (ProcessInputBuffer ds' (ProcessInputBuffer (0xF0 # ds) s)))
        (ProcessInputBuffer rest (ProcessInputBuffer [0xF0] s))) \<and>
   (\<forall>v s. 0x80 \<le> v \<and> v < 0xF8 \<longrightarrow> process_byte v s = process_byte v (FlushSysex s)) \<and>
   (\<forall>v s. 0x80 \<le> v \<and> v < 0xF0 \<longrightarrow>
      process_byte v s =
        (Next, (FlushSysex s)\<lparr>runningStatus := v, dataLength := GetDataLength v, dataIndex := 0\<rparr>)) \<and>
   (\<forall>s. sink_wf (pInputEventBuffer s) \<and> inputEventBufferIndex s < MAX_MIDI_EVENT \<longrightarrow>
      (\<exists>s'. process_byte 0xF7 s = (Next, s') \<and> \<not> inputProcessingSysex s' \<and>
         inputEventBufferIndex s' = inputEventBufferIndex s + 1 \<and>
         event_bytes (pInputEventBuffer s') (inputEventBufferIndex s) = [0xF7] \<and>
         keeps (inputEventBufferIndex s) (pInputEventBuffer s) (pInputEventBuffer s'))) \<and>
   (\<exists>snk s snk' s'.
      ReadMidiEvents new_sink 0 0 [Bytes [0xF0, 0x76, 0x3B]] (Open new_device) = Inr (0, snk, s) \<and>
      ReadMidiEvents snk 0 0 [Bytes [0x77, 0xF7, 0x90, 0x40, 0x50]] s = Inr (2, snk', s') \<and>
      emitted snk' 2 = [[0xF7], [0x90, 0x40, 0x50]])"
proof (intro conjI allI impI)
  fix s :: AlsaMidiDeviceImpl and ds ds' :: "8 word list"
  assume ds: "\<forall>d\<in>set ds. d < 0x80" and ds': "\<forall>d\<in>set ds'. d < 0x80"
  obtain s0 where s0: "process_byte 0xF0 s = (Next, s0)" "sysex_open s0"
      "pInputEventBuffer s0 = pInputEventBuffer s" "inputEventBufferIndex s0 = inputEventBufferIndex s"
    using process_byte_sysex_begin [of s] by blast
  let ?s1 = "ProcessInputBuffer ds s0"
  have e: "ProcessInputBuffer (0xF0 # ds) s = ?s1" using s0(1) by simp
  from ProcessInputBuffer_sysex_data [OF s0(2) ds]
  have 1: "sysex_open ?s1" "pInputEventBuffer ?s1 = pInputEventBuffer s0"
    "inputEventBufferIndex ?s1 = inputEventBufferIndex s0" by simp_all
  from ProcessInputBuffer_sysex_data [OF 1(1) ds']
  have 2: "sysex_open (ProcessInputBuffer ds' ?s1)"
    "pInputEventBuffer (ProcessInputBuffer ds' ?s1) = pInputEventBuffer ?s1"
    "inputEventBufferIndex (ProcessInputBuffer ds' ?s1) = inputEventBufferIndex ?s1" by simp_all
  show "pInputEventBuffer (ProcessInputBuffer ds' (ProcessInputBuffer (0xF0 # ds) s)) = pInputEventBuffer s"
    unfolding e using 1 2 s0 by simp
  show "inputEventBufferIndex (ProcessInputBuffer ds' (ProcessInputBuffer (0xF0 # ds) s))
        = inputEventBufferIndex s"
    unfolding e using 1 2 s0 by simp
  show "inputProcessingSysex (ProcessInputBuffer ds' (ProcessInputBuffer (0xF0 # ds) s))"
    unfolding e using 2(1) by (simp add: sysex_open_def)
next
  fix s :: AlsaMidiDeviceImpl and ds ds' rest :: "8 word list"
  assume "\<forall>d\<in>set ds. d < 0x80" and "\<forall>d\<in>set ds'. d < 0x80"
  then show "sysex_equiv (ProcessInputBuffer rest (ProcessInputBuffer ds' (ProcessInputBuffer (0xF0 # ds) s)))
        (ProcessInputBuffer rest (ProcessInputBuffer [0xF0] s))"
    by (rule sysex_content_ignored)
next
  fix v :: "8 word" and s :: AlsaMidiDeviceImpl
  assume "0x80 \<le> v \<and> v < 0xF8"
  then show "process_byte v s = process_byte v (FlushSysex s)"
    using process_byte_flushed by blast
next
  fix v :: "8 word" and s :: AlsaMidiDeviceImpl
  assume "0x80 \<le> v \<and> v < 0xF0"
  then show "process_byte v s =
        (Next, (FlushSysex s)\<lparr>runningStatus := v, dataLength := GetDataLength v, dataIndex := 0\<rparr>)"
    using process_byte_voice by blast
next
  fix s :: AlsaMidiDeviceImpl
  assume a: "sink_wf (pInputEventBuffer s) \<and> inputEventBufferIndex s < MAX_MIDI_EVENT"
  have "(0xF0 :: 8 word) < 0xF7" "(0xF7 :: 8 word) < 0xF8"
    by (simp_all add: word_less_nat_alt)
  then show "\<exists>s'. process_byte 0xF7 s = (Next, s') \<and> \<not> inputProcessingSysex s' \<and>
         inputEventBufferIndex s' = inputEventBufferIndex s + 1 \<and>
         event_bytes (pInputEventBuffer s') (inputEventBufferIndex s) = [0xF7] \<and>
         keeps (inputEventBufferIndex s) (pInputEventBuffer s) (pInputEventBuffer s')"
    using a by (intro process_byte_common_stored) blast+
next
  let ?s1 = "\<lparr>runningStatus = 0, dataLength = - 2, dataIndex = - 1, data0 = 0, data1 = 0,
     inputProcessingSysex = True, inputSysexBufferCount = 3,
     inputSysexBuffer = (replicate 1024 0)[0 := 0xF0, 1 := 0x76, 2 := 0x3B],
     inputSampleFrame = 0, inputEventBufferIndex = 0, pInputEventBuffer = new_sink\<rparr>"
  let ?k2 = "store_event (store_event new_sink 0 0 1 0xF7 0 0) 1 0 3 0x90 0x40 0x50"
  let ?s2 = "\<lparr>runningStatus = 0x90, dataLength = 2, dataIndex = 0, data0 = 0x40, data1 = 0x50,
     inputProcessingSysex = False, inputSysexBufferCount = 4,
     inputSysexBuffer = (replicate 1024 0)[0 := 0xF0, 1 := 0x76, 2 := 0x3B, 3 := 0x77],
     inputSampleFrame = 0, inputEventBufferIndex = 2, pInputEventBuffer = ?k2\<rparr>"
  have 1: "ReadMidiEvents new_sink 0 0 [Bytes [0xF0, 0x76, 0x3B]] (Open new_device) = Inr (0, new_sink, ?s1)"
    by (simp add: Open_def new_device_def midi_run del: ProcessInputBuffer.simps(2))
  have 2: "ReadMidiEvents new_sink 0 0 [Bytes [0x77, 0xF7, 0x90, 0x40, 0x50]] ?s1 = Inr (2, ?k2, ?s2)"
    by (simp add: midi_run del: ProcessInputBuffer.simps(2))
  have 3: "emitted ?k2 2 = [[0xF7], [0x90, 0x40, 0x50]]"
    by (simp add: midi_out)
  show "\<exists>snk s snk' s'.
      ReadMidiEvents new_sink 0 0 [Bytes [0xF0, 0x76, 0x3B]] (Open new_device) = Inr (0, snk, s) \<and>
      ReadMidiEvents snk 0 0 [Bytes [0x77, 0xF7, 0x90, 0x40, 0x50]] s = Inr (2, snk', s') \<and>
      emitted snk' 2 = [[0xF7], [0x90, 0x40, 0x50]]"
    by (intro exI conjI, rule 1, rule 2, rule 3)
qed

theorem midi_sysex_dropped_witness:
  "(0x76 :: 8 word) < 0x80 \<and> (0x3B :: 8 word) < 0x80 \<and> (0x77 :: 8 word) < 0x80 \<and>
   inputEventBufferIndex (ProcessInputBuffer [0x77] (ProcessInputBuffer [0xF0, 0x76, 0x3B]
      ((Open new_device)\<lparr>pInputEventBuffer := new_sink\<rparr>))) = 0 \<and>
   inputProcessingSysex (ProcessInputBuffer [0x77] (ProcessInputBuffer [0xF0, 0x76, 0x3B]
      ((Open new_device)\<lparr>pInputEventBuffer := new_sink\<rparr>))) \<and>
   sysex_equiv
     (ProcessInputBuffer [0xF7, 0x90, 0x40, 0x50] (ProcessInputBuffer [0x77]
        (ProcessInputBuffer [0xF0, 0x76, 0x3B] ((Open new_device)\<lparr>pInputEventBuffer := new_sink\<rparr>))))
     (ProcessInputBuffer [0xF7, 0x90, 0x40, 0x50]
        (ProcessInputBuffer [0xF0] ((Open new_device)\<lparr>pInputEventBuffer := new_sink\<rparr>))) \<and>
   (0x80 :: 8 word) \<le> 0xF7 \<and> (0xF7 :: 8 word) < 0xF8 \<and>
   process_byte 0xF7 ((Open new_device)\<lparr>inputProcessingSysex := True\<rparr>) =
     process_byte 0xF7 (FlushSysex ((Open new_device)\<lparr>inputProcessingSysex := True\<rparr>)) \<and>
   (0x80 :: 8 word) \<le> 0x90 \<and> (0x90 :: 8 word) < 0xF0 \<and>
   process_byte 0x90 ((Open new_device)\<lparr>inputProcessingSysex := True\<rparr>) =
     (Next, (Open new_device)\<lparr>runningStatus := 0x90, dataLength := 2\<rparr>) \<and>
   sink_wf new_sink \<and> (0 :: nat) < MAX_MIDI_EVENT \<and>
   (\<exists>s'. process_byte 0xF7
           ((Open new_device)\<lparr>inputProcessingSysex := True, pInputEventBuffer := new_sink\<rparr>) = (Next, s') \<and>
         \<not> inputProcessingSysex s' \<and> inputEventBufferIndex s' = 1 \<and>
         event_bytes (pInputEventBuffer s') 0 = [0xF7])"
proof -
  let ?s = "(Open new_device)\<lparr>pInputEventBuffer := new_sink\<rparr>"
  let ?t = "(Open new_device)\<lparr>inputProcessingSysex := True\<rparr>"
  let ?u = "(Open new_device)\<lparr>inputProcessingSysex := True, pInputEventBuffer := new_sink\<rparr>"
  have a: "\<forall>d\<in>set [0x76, 0x3B :: 8 word]. d < 0x80" by (simp add: word_less_nat_alt)
  have b: "\<forall>d\<in>set [0x77 :: 8 word]. d < 0x80" by (simp add: word_less_nat_alt)
  have c: "(0x80 :: 8 word) \<le> 0xF7 \<and> (0xF7 :: 8 word) < 0xF8"
    by (simp add: word_less_nat_alt word_le_nat_alt)
  have d: "(0x80 :: 8 word) \<le> 0x90 \<and> (0x90 :: 8 word) < 0xF0"
    by (simp add: word_less_nat_alt word_le_nat_alt)
  have e: "sink_wf (pInputEventBuffer ?u) \<and> inputEventBufferIndex ?u < MAX_MIDI_EVENT"
    by (simp add: sink_wf_new Open_def new_device_def MAX_MIDI_EVENT_def)
  have g: "GetDataLength 0x90 = 2"
    by (simp add: GetDataLength_def sDataLength_def drop_bit_eq_div)
  note t = midi_sysex_dropped
  from t [THEN conjunct1, THEN spec [of _ ?s], THEN spec [of _ "[0x76, 0x3B]"],
      THEN spec [of _ "[0x77]"], THEN mp, THEN mp, OF a b]
  have 1: "inputEventBufferIndex (ProcessInputBuffer [0x77] (ProcessInputBuffer [0xF0, 0x76, 0x3B] ?s)) = 0"
    "inputProcessingSysex (ProcessInputBuffer [0x77] (ProcessInputBuffer [0xF0, 0x76, 0x3B] ?s))"
    by (simp_all add: Open_def new_device_def del: ProcessInputBuffer.simps)
  from t [THEN conjunct2, THEN conjunct1, THEN spec [of _ ?s], THEN spec [of _ "[0x76, 0x3B]"],
      THEN spec [of _ "[0x77]"], THEN spec [of _ "[0xF7, 0x90, 0x40, 0x50]"], THEN mp, THEN mp, OF a b]
  have 2: "sysex_equiv
     (ProcessInputBuffer [0xF7, 0x90, 0x40, 0x50] (ProcessInputBuffer [0x77]
        (ProcessInputBuffer [0xF0, 0x76, 0x3B] ?s)))
     (ProcessInputBuffer [0xF7, 0x90, 0x40, 0x50] (ProcessInputBuffer [0xF0] ?s))" .
  from t [THEN conjunct2, THEN conjunct2, THEN conjunct1, THEN spec [of _ "0xF7"],
      THEN spec [of _ ?t], THEN mp, OF c]
  have 3: "process_byte 0xF7 ?t = process_byte 0xF7 (FlushSysex ?t)" .
  from t [THEN conjunct2, THEN conjunct2, THEN conjunct2, THEN conjunct1, THEN spec [of _ "0x90"],
      THEN spec [of _ ?t], THEN mp, OF d]
  have 4: "process_byte 0x90 ?t = (Next, (Open new_device)\<lparr>runningStatus := 0x90, dataLength := 2\<rparr>)"
    by (simp add: g FlushSysex_def Open_def new_device_def)
  from t [THEN conjunct2, THEN conjunct2, THEN conjunct2, THEN conjunct2, THEN conjunct1,
      THEN spec [of _ ?u], THEN mp, OF e]
  have 5: "\<exists>s'. process_byte 0xF7 ?u = (Next, s') \<and>
         \<not> inputProcessingSysex s' \<and> inputEventBufferIndex s' = 1 \<and>
         event_bytes (pInputEventBuffer s') 0 = [0xF7]"
    by (auto simp add: Open_def new_device_def)
  from a b c d e 1 2 3 4 5 show ?thesis
    by (simp add: sink_wf_new MAX_MIDI_EVENT_def del: ProcessInputBuffer.simps)
qed


section \<open>Properties of the sample codec\<close>

subsection \<open>Rounding to binary32\<close>
lemma denorm_min_pos: "0 < denorm_min"
  by (simp add: denorm_min_def)

lemma ulp_search_form: "\<exists>k\<le>n. ulp_search n u a = u * 2 ^ k"
proof (induction n arbitrary: u)
  case 0
  show ?case by simp
next
  case (Suc n)
  show ?case
  proof (cases "a < 2 ^ 24 * u")
    case True
    then have "ulp_search (Suc n) u a = u * 2 ^ 0" by simp
    then show ?thesis by blast
  next
    case False
    from Suc [of "2 * u"] obtain k where k: "k \<le> n" "ulp_search n (2 * u) a = 2 * u * 2 ^ k" by blast
    then have "ulp_search (Suc n) u a = u * 2 ^ Suc k" using False by simp
    with k(1) show ?thesis by (metis Suc_le_mono)
  qed
qed

lemma ulp_search_le: "0 < u \<Longrightarrow> ulp_search n u a \<le> max u (a / 2 ^ 23)"
proof (induction n arbitrary: u)
  case 0
  then show ?case by simp
next
  case (Suc n)
  show ?case
  proof (cases "a < 2 ^ 24 * u")
    case True
    then show ?thesis by simp
  next
    case False
    then have a: "2 * u \<le> a / 2 ^ 23" by (simp add: field_simps)
    from Suc.IH [of "2 * u"] Suc.prems have "ulp_search n (2 * u) a \<le> max (2 * u) (a / 2 ^ 23)" by simp
    with a False show ?thesis by simp
  qed
qed

lemma ulp32_form: "\<exists>k\<le>253. ulp32 x = denorm_min * 2 ^ k"
  using ulp_search_form [of 253 denorm_min "\<bar>x\<bar>"] by (simp add: ulp32_def)

lemma ulp32_pos: "0 < ulp32 x"
proof -
  obtain k where "ulp32 x = denorm_min * 2 ^ k" using ulp32_form by blast
  then show ?thesis using denorm_min_pos by simp
qed

lemma ulp32_le: "ulp32 x \<le> max denorm_min (\<bar>x\<bar> / 2 ^ 23)"
  unfolding ulp32_def using denorm_min_pos by (rule ulp_search_le)

lemma ulp32_divides:
  assumes "\<bar>x\<bar> < 2 ^ 24 * (denorm_min * 2 ^ b)"
  shows "\<exists>j. denorm_min * 2 ^ b = ulp32 x * 2 ^ j"
proof -
  obtain k where k: "ulp32 x = denorm_min * 2 ^ k" using ulp32_form by blast
  have "k \<le> b"
  proof (cases "ulp32 x \<le> denorm_min")
    case True
    with k denorm_min_pos have "(2::real) ^ k \<le> 2 ^ 0" by simp
    then have "k \<le> 0" by (rule power_le_imp_le_exp [rotated]) simp
    then show ?thesis by simp
  next
    case False
    with ulp32_le [of x] have "ulp32 x \<le> \<bar>x\<bar> / 2 ^ 23" by simp
    also have "\<dots> < 2 * (denorm_min * 2 ^ b)" using assms by (simp add: field_simps)
    finally have "denorm_min * 2 ^ k < denorm_min * 2 ^ Suc b" using k by simp
    then have "(2::real) ^ k < 2 ^ Suc b" using denorm_min_pos by simp
    then have "k < Suc b" by (rule power_less_imp_less_exp [rotated]) simp
    then show ?thesis by simp
  qed
  then have "(2::real) ^ b = 2 ^ k * 2 ^ (b - k)" by (simp flip: power_add)
  with k show ?thesis by (intro exI [of _ "b - k"]) simp
qed

lemma round_even_error: "\<bar>of_int (round_even x) - x\<bar> \<le> 1 / 2"
  unfolding round_even_def Let_def by (auto simp: abs_if) linarith+

lemma round_even_int [simp]: "round_even (of_int n) = n"
  by (simp add: round_even_def)

lemma round_even_ge: "of_int n \<le> x \<Longrightarrow> n \<le> round_even x"
proof -
  assume "of_int n \<le> x"
  then have "n \<le> \<lfloor>x\<rfloor>" by (simp add: le_floor_iff)
  then show ?thesis unfolding round_even_def Let_def by auto
qed

lemma round_even_le: "x \<le> of_int n \<Longrightarrow> round_even x \<le> n"
  unfolding round_even_def Let_def by (auto simp: floor_le_iff)

lemma round_f32_error: "\<bar>round_f32 x - x\<bar> \<le> ulp32 x / 2"
proof -
  let ?u = "ulp32 x"
  have u: "0 < ?u" by (rule ulp32_pos)
  have "round_f32 x - x = (of_int (round_even (x / ?u)) - x / ?u) * ?u"
    using u by (simp add: round_f32_def field_simps)
  then have "\<bar>round_f32 x - x\<bar> = \<bar>of_int (round_even (x / ?u)) - x / ?u\<bar> * ?u"
    using u by (simp add: abs_mult)
  also have "\<dots> \<le> 1 / 2 * ?u"
    using round_even_error [of "x / ?u"] u by (intro mult_right_mono) simp_all
  finally show ?thesis by simp
qed

lemma round_f32_error_bound: "\<bar>round_f32 x - x\<bar> \<le> max denorm_min (\<bar>x\<bar> / 2 ^ 23) / 2"
proof -
  have "ulp32 x / 2 \<le> max denorm_min (\<bar>x\<bar> / 2 ^ 23) / 2"
    using ulp32_le [of x] by simp
  with round_f32_error [of x] show ?thesis by (rule order_trans)
qed

lemma ulp32_divides_grid:
  assumes "grid g" "\<bar>x\<bar> < 2 ^ 24 * g"
  shows "\<exists>j. g = ulp32 x * 2 ^ j"
  using assms ulp32_divides unfolding grid_def by blast

lemma round_f32_grid_ge:
  assumes "grid g" "\<bar>x\<bar> < 2 ^ 24 * g" "of_int n * g \<le> x"
  shows "of_int n * g \<le> round_f32 x"
proof -
  let ?u = "ulp32 x"
  have u: "0 < ?u" by (rule ulp32_pos)
  from ulp32_divides_grid [OF assms(1,2)] obtain j where j: "g = ?u * 2 ^ j" by blast
  have "of_int (n * 2 ^ j) * ?u \<le> x" using assms(3) j by (simp add: mult_ac)
  then have "of_int (n * 2 ^ j) \<le> x / ?u" using u by (simp add: pos_le_divide_eq)
  then have "n * 2 ^ j \<le> round_even (x / ?u)" by (rule round_even_ge)
  then have "(of_int (n * 2 ^ j) :: real) \<le> of_int (round_even (x / ?u))"
    by (simp only: of_int_le_iff)
  then have "of_int (n * 2 ^ j) * ?u \<le> of_int (round_even (x / ?u)) * ?u"
    using u by (intro mult_right_mono) simp_all
  then show ?thesis using j by (simp add: round_f32_def mult_ac)
qed

lemma round_f32_grid_le:
  assumes "grid g" "\<bar>x\<bar> < 2 ^ 24 * g" "x \<le> of_int n * g"
  shows "round_f32 x \<le> of_int n * g"
proof -
  let ?u = "ulp32 x"
  have u: "0 < ?u" by (rule ulp32_pos)
  from ulp32_divides_grid [OF assms(1,2)] obtain j where j: "g = ?u * 2 ^ j" by blast
  have "x \<le> of_int (n * 2 ^ j) * ?u" using assms(3) j by (simp add: mult_ac)
  then have "x / ?u \<le> of_int (n * 2 ^ j)" using u by (simp add: pos_divide_le_eq)
  then have "round_even (x / ?u) \<le> n * 2 ^ j" by (rule round_even_le)
  then have "(of_int (round_even (x / ?u)) :: real) \<le> of_int (n * 2 ^ j)"
    by (simp only: of_int_le_iff)
  then have "of_int (round_even (x / ?u)) * ?u \<le> of_int (n * 2 ^ j) * ?u"
    using u by (intro mult_right_mono) simp_all
  then show ?thesis using j by (simp add: round_f32_def mult_ac)
qed

lemma round_f32_exact:
  assumes "grid g" "\<bar>x\<bar> < 2 ^ 24 * g" "x = of_int n * g"
  shows "round_f32 x = x"
  using round_f32_grid_ge [OF assms(1,2), of n] round_f32_grid_le [OF assms(1,2), of n] assms(3)
  by simp

lemma grid_1: "grid 1"
  unfolding grid_def by (rule exI [of _ 149]) (simp add: denorm_min_def)

lemma round_f32_int: "\<bar>of_int n :: real\<bar> < 2 ^ 24 \<Longrightarrow> round_f32 (of_int n) = of_int n"
  using round_f32_exact [OF grid_1, of "of_int n" n] by simp

lemma round_f32_floor: "\<bar>x\<bar> < 2 ^ 24 \<Longrightarrow> of_int \<lfloor>x\<rfloor> \<le> round_f32 x"
  using round_f32_grid_ge [OF grid_1, of x "\<lfloor>x\<rfloor>"] by simp

lemma round_f32_ceiling: "\<bar>x\<bar> < 2 ^ 24 \<Longrightarrow> round_f32 x \<le> of_int \<lceil>x\<rceil>"
  using round_f32_grid_le [OF grid_1, of x "\<lceil>x\<rceil>"] by simp

subsection \<open>Words and bytes\<close>
lemma S24_3_word_eq: "S24_3_word a b c = S24_3_word_spec a b c"
proof -
  have "push_bit 8 (ucast a :: 32 word) AND push_bit 16 (ucast b) = 0"
    by (rule bit_word_eqI) (auto simp add: bit_simps dest: bit_imp_le_length)
  then have "push_bit 8 (ucast a :: 32 word) + push_bit 16 (ucast b)
      = push_bit 8 (ucast a) OR push_bit 16 (ucast b)"
    by (rule disjunctive_add_eq_or)
  then show ?thesis by (simp add: S24_3_word_def S24_3_word_spec_def or.assoc)
qed

lemma byte_mask: "(0xFF :: 'a::len word) = mask 8"
  by (simp add: mask_eq_exp_minus_1)

lemma ranges16: "n < 16 \<Longrightarrow> n < 8 \<or> (\<exists>m<8. n = 8 + m)" for n :: nat
proof -
  assume n: "n < 16"
  have "n < 8 \<or> n = 8 + (n - 8) \<and> n - 8 < 8" using n by arith
  then show ?thesis by blast
qed

lemma ranges32:
  "n < 32 \<Longrightarrow> n < 8 \<or> (\<exists>m<8. n = 8 + m) \<or> (\<exists>m<8. n = 16 + m) \<or> (\<exists>m<8. n = 24 + m)" for n :: nat
proof -
  assume n: "n < 32"
  have "n < 8 \<or> n = 8 + (n - 8) \<and> n - 8 < 8 \<or> n = 16 + (n - 16) \<and> n - 16 < 8
      \<or> n = 24 + (n - 24) \<and> n - 24 < 8"
    using n by arith
  then show ?thesis by blast
qed

lemma get_put_int16: "get_int16 (put_int16 w) = w"
proof (rule bit_word_eqI)
  fix n assume "n < LENGTH(16)"
  then have "n < 16" by simp
  then have "n < 8 \<or> (\<exists>m<8. n = 8 + m)" by (rule ranges16)
  then show "bit (get_int16 (put_int16 w)) n = bit w n"
    unfolding get_int16_def put_int16_def
    by (elim disjE conjE exE) (simp_all add: bit_simps)
qed

lemma get_put_int32: "get_int32 (put_int32 w) = w"
proof (rule bit_word_eqI)
  fix n assume "n < LENGTH(32)"
  then have "n < 32" by simp
  then have "n < 8 \<or> (\<exists>m<8. n = 8 + m) \<or> (\<exists>m<8. n = 16 + m) \<or> (\<exists>m<8. n = 24 + m)"
    by (rule ranges32)
  then show "bit (get_int32 (put_int32 w)) n = bit w n"
    unfolding get_int32_def put_int32_def
    by (elim disjE conjE exE) (simp_all add: bit_simps)
qed

lemma EndianSwap_int16_twice: "EndianSwap_int16 (EndianSwap_int16 w) = w"
proof (rule bit_word_eqI)
  fix n assume "n < LENGTH(16)"
  then have "n < 16" by simp
  then have "n < 8 \<or> (\<exists>m<8. n = 8 + m)" by (rule ranges16)
  then show "bit (EndianSwap_int16 (EndianSwap_int16 w)) n = bit w n"
    unfolding EndianSwap_int16_def Let_def byte_mask
    by (elim disjE conjE exE) (simp_all add: bit_simps)
qed

lemma EndianSwap_int32_twice: "EndianSwap_int32 (EndianSwap_int32 w) = w"
proof (rule bit_word_eqI)
  fix n assume "n < LENGTH(32)"
  then have "n < 32" by simp
  then have "n < 8 \<or> (\<exists>m<8. n = 8 + m) \<or> (\<exists>m<8. n = 16 + m) \<or> (\<exists>m<8. n = 24 + m)"
    by (rule ranges32)
  then show "bit (EndianSwap_int32 (EndianSwap_int32 w)) n = bit w n"
    unfolding EndianSwap_int32_def Let_def byte_mask
    by (elim disjE conjE exE) (simp_all add: bit_simps)
qed

lemma S24_3_Le_pack:
  "S24_3_word (ucast (signed_drop_bit 8 iv)) (ucast (signed_drop_bit 16 iv)) (ucast (signed_drop_bit 24 iv))
     = push_bit 8 (signed_drop_bit 8 iv)" for iv :: "32 word"
proof (rule bit_word_eqI)
  fix n assume "n < LENGTH(32)"
  then have "n < 32" by simp
  then have "n < 8 \<or> (\<exists>m<8. n = 8 + m) \<or> (\<exists>m<8. n = 16 + m) \<or> (\<exists>m<8. n = 24 + m)"
    by (rule ranges32)
  then show "bit (S24_3_word (ucast (signed_drop_bit 8 iv)) (ucast (signed_drop_bit 16 iv))
      (ucast (signed_drop_bit 24 iv))) n = bit (push_bit 8 (signed_drop_bit 8 iv)) n"
    unfolding S24_3_word_eq S24_3_word_spec_def
    by (elim disjE conjE exE) (simp_all add: bit_simps)
qed

lemma sint_clear_low_byte:
  "sint (push_bit 8 (signed_drop_bit 8 iv)) = 256 * (sint iv div 256)" for iv :: "32 word"
proof -
  let ?k = "sint iv"
  have r: "- (2 ^ 31) \<le> ?k" "?k < 2 ^ 31" using sint_ge [of iv] sint_lt [of iv] by simp_all
  have lo: "- (2 ^ 31) \<le> 256 * (?k div 256)" using r(1) by simp
  have hi: "256 * (?k div 256) < 2 ^ 31" using r(2) by simp
  have "sint (push_bit 8 (signed_drop_bit 8 iv)) = signed_take_bit 31 (push_bit 8 (drop_bit 8 ?k))"
    by (simp add: signed_push_bit_eq sint_signed_drop_bit_eq)
  also have "push_bit 8 (drop_bit 8 ?k) = 256 * (?k div 256)"
    by (simp add: push_bit_eq_mult drop_bit_eq_div)
  also have "signed_take_bit 31 (256 * (?k div 256)) = 256 * (?k div 256)"
    using lo hi by (intro signed_take_bit_int_eq_self) simp_all
  finally show ?thesis .
qed

text \<open>
  Claim C6 (S24 packed in 3 bytes, little-endian decode). For all bytes \<open>p[0]\<close>, \<open>p[1]\<close>,
  \<open>p[2]\<close> the expression of the source, \<open>((p[0]<<8) + (p[1]<<16)) | (p[2]<<24)\<close> in 32-bit
  arithmetic, equals the pure bit-OR form of the specification, and so the sample that
  \<open>CopyCaptureS24_3Le\<close> decodes is the scale times the value of either form.
\<close>
theorem s24_3_decode_or_equivalent:
  "S24_3_word p0 p1 p2 = S24_3_word_spec p0 p1 p2 \<and>
   CopyCaptureS24_3Le_body [p0, p1, p2]
     = fmul inv_scale_S32 (float_of_int (sint (S24_3_word_spec p0 p1 p2)))"
  by (simp add: CopyCaptureS24_3Le_body_def S24_3_word_eq)

subsection \<open>Scales, clamping and truncation\<close>
lemma scale_S16_eq: "scale_S16 = 32767"
  using round_f32_int [of 32767] by (simp add: scale_S16_def float_of_int_def)

lemma scale_S24_eq: "scale_S24 = 16777215"
  using round_f32_int [of 16777215] by (simp add: scale_S24_def float_of_int_def)

lemma ulp32_2_31: "ulp32 2147483647 = 128"
  by (simp add: ulp32_def denorm_min_def eval_nat_numeral)

lemma scale_S32_eq: "scale_S32 = 2147483648"
  by (simp add: scale_S32_def float_of_int_def round_f32_def ulp32_2_31 round_even_def)

lemma grid_pow2: "grid (2 ^ k)"
  unfolding grid_def by (rule exI [of _ "149 + k"]) (simp add: denorm_min_def power_add)

lemma grid_inv_pow2: "k \<le> 149 \<Longrightarrow> grid (1 / 2 ^ k)"
  unfolding grid_def
proof (rule exI [of _ "149 - k"])
  assume "k \<le> 149"
  then have "(2::real) ^ 149 = 2 ^ k * 2 ^ (149 - k)" by (simp flip: power_add)
  then show "1 / 2 ^ k = denorm_min * 2 ^ (149 - k)" by (simp add: denorm_min_def field_simps)
qed

lemma round_f32_pow2: "round_f32 (2 ^ k) = 2 ^ k"
  using round_f32_exact [OF grid_pow2 [of k], of "2 ^ k" 1] by simp

lemma round_f32_inv_pow2: "k \<le> 149 \<Longrightarrow> round_f32 (1 / 2 ^ k) = 1 / 2 ^ k"
proof -
  assume k: "k \<le> 149"
  have "(1::real) / 2 ^ k < 2 ^ 24 * (1 / 2 ^ k)" by (simp add: divide_strict_right_mono)
  then have "\<bar>(1::real) / 2 ^ k\<bar> < 2 ^ 24 * (1 / 2 ^ k)" by simp
  from round_f32_exact [OF grid_inv_pow2 [OF k] this, of 1] show ?thesis by simp
qed

lemma inv_scale_S16_eq: "inv_scale_S16 = 1 / 2 ^ 15"
  using round_f32_pow2 [of 15] round_f32_inv_pow2 [of 15]
  by (simp add: inv_scale_S16_def fdiv_def float_of_int_def)

lemma inv_scale_S24_eq: "inv_scale_S24 = 1 / 2 ^ 24"
  using round_f32_pow2 [of 24] round_f32_inv_pow2 [of 24]
  by (simp add: inv_scale_S24_def fdiv_def float_of_int_def)

lemma inv_scale_S32_eq: "inv_scale_S32 = 1 / 2 ^ 31"
  using round_f32_pow2 [of 31] round_f32_inv_pow2 [of 31]
  by (simp add: inv_scale_S32_def fdiv_def float_of_int_def)

lemma round_f32_error_le:
  assumes "\<bar>x\<bar> \<le> B" "1 \<le> B"
  shows "\<bar>round_f32 x - x\<bar> \<le> B / 2 ^ 24"
proof -
  have "denorm_min \<le> 1 / 2 ^ 23" by (simp add: denorm_min_def)
  also have "\<dots> \<le> B / 2 ^ 23" using assms(2) by (simp add: divide_right_mono)
  finally have "denorm_min \<le> B / 2 ^ 23" .
  moreover have "\<bar>x\<bar> / 2 ^ 23 \<le> B / 2 ^ 23" using assms(1) by (simp add: divide_right_mono)
  ultimately have "max denorm_min (\<bar>x\<bar> / 2 ^ 23) \<le> B / 2 ^ 23" by simp
  then have "max denorm_min (\<bar>x\<bar> / 2 ^ 23) / 2 \<le> B / 2 ^ 23 / 2" by simp
  with round_f32_error_bound [of x] have "\<bar>round_f32 x - x\<bar> \<le> B / 2 ^ 23 / 2" by (rule order_trans)
  then show ?thesis by simp
qed

lemma truncate_between:
  assumes "of_int a \<le> y" "y \<le> of_int b"
  shows "a \<le> truncate_int y \<and> truncate_int y \<le> b"
proof (cases "0 \<le> y")
  case True
  have "a \<le> \<lfloor>y\<rfloor>" using assms(1) by (simp add: le_floor_iff)
  moreover have "\<lfloor>y\<rfloor> \<le> b" using assms(2) by (simp add: floor_le_iff)
  ultimately show ?thesis using True by (simp add: truncate_int_def)
next
  case False
  have "\<lceil>y\<rceil> \<le> b" using assms(2) by (simp add: ceiling_le_iff)
  moreover have "a \<le> \<lceil>y\<rceil>" using assms(1) by (simp add: le_ceiling_iff)
  ultimately show ?thesis using False by (simp add: truncate_int_def)
qed

lemma truncate_round_near:
  assumes "\<bar>z\<bar> < 2 ^ 24"
  shows "\<bar>of_int (truncate_int (round_f32 z)) - z\<bar> < 1"
proof -
  from truncate_between [OF round_f32_floor [OF assms] round_f32_ceiling [OF assms]]
  have "\<lfloor>z\<rfloor> \<le> truncate_int (round_f32 z)" "truncate_int (round_f32 z) \<le> \<lceil>z\<rceil>" by simp_all
  then have "of_int \<lfloor>z\<rfloor> \<le> (of_int (truncate_int (round_f32 z)) :: real)"
    "(of_int (truncate_int (round_f32 z)) :: real) \<le> of_int \<lceil>z\<rceil>" by simp_all
  then show ?thesis by linarith
qed

lemma truncate_round_bound:
  assumes "\<bar>z\<bar> < 2 ^ 24" "\<bar>z\<bar> \<le> of_int m"
  shows "\<bar>truncate_int (round_f32 z)\<bar> \<le> m"
proof -
  from assms(2) have "of_int (- m) \<le> z" "z \<le> of_int m" by simp_all
  with round_f32_grid_ge [OF grid_1, of z "- m"] round_f32_grid_le [OF grid_1, of z m] assms(1)
  have "of_int (- m) \<le> round_f32 z" "round_f32 z \<le> of_int m" by simp_all
  from truncate_between [OF this] show ?thesis by linarith
qed

lemma truncate_int_of_int [simp]: "truncate_int (of_int n) = n"
  by (simp add: truncate_int_def)

lemma sint16_of_int: "- (2 ^ 15) \<le> t \<Longrightarrow> t < 2 ^ 15 \<Longrightarrow> sint (word_of_int t :: 16 word) = t"
  by (simp add: sint_sbintrunc' signed_take_bit_int_eq_self)

lemma sint32_of_int: "- (2 ^ 31) \<le> t \<Longrightarrow> t < 2 ^ 31 \<Longrightarrow> sint (word_of_int t :: 32 word) = t"
  by (simp add: sint_sbintrunc' signed_take_bit_int_eq_self)


lemma clamp1_id: "\<bar>v\<bar> \<le> 1 \<Longrightarrow> clamp1 v = v"
  by (auto simp add: clamp1_def abs_if split: if_splits)



text \<open>Encoding with an integer scale below 2 ^ 24: in range, and within 1 of the exact product.\<close>

lemma scaled_truncate:
  assumes "\<bar>c\<bar> \<le> 1" "0 < m" "m < 2 ^ 24"
  shows "\<bar>truncate_int (fmul (of_int m) c)\<bar> \<le> m"
    and "\<bar>of_int (truncate_int (fmul (of_int m) c)) - of_int m * c\<bar> < 1"
proof -
  have "\<bar>of_int m * c\<bar> = of_int m * \<bar>c\<bar>" using assms(2) by (simp add: abs_mult)
  also have "\<dots> \<le> of_int m * 1" using assms(1,2) by (intro mult_left_mono) simp_all
  finally have b: "\<bar>of_int m * c\<bar> \<le> of_int m" by simp
  have "(of_int m :: real) < 2 ^ 24" using assms(3) by (metis of_int_less_iff of_int_numeral of_int_power)
  with b have s: "\<bar>of_int m * c\<bar> < 2 ^ 24" by linarith
  show "\<bar>truncate_int (fmul (of_int m) c)\<bar> \<le> m"
    unfolding fmul_def using s b by (rule truncate_round_bound)
  show "\<bar>of_int (truncate_int (fmul (of_int m) c)) - of_int m * c\<bar> < 1"
    unfolding fmul_def using s by (rule truncate_round_near)
qed

lemma int16_of_float_Some:
  "\<bar>truncate_int y\<bar> \<le> 32767 \<Longrightarrow> int16_of_float y = Some (word_of_int (truncate_int y))"
  by (simp add: int16_of_float_def, arith)

lemma int32_of_float_Some:
  "\<bar>truncate_int y\<bar> \<le> 2147483647 \<Longrightarrow> int32_of_float y = Some (word_of_int (truncate_int y))"
  by (simp add: int32_of_float_def, arith)

lemma enc_S16:
  assumes "\<bar>c\<bar> \<le> 1"
  shows "\<exists>t. int16_of_float (fmul scale_S16 c) = Some (word_of_int t) \<and> t = truncate_int (fmul 32767 c) \<and>
             \<bar>t\<bar> \<le> 32767 \<and> \<bar>of_int t - 32767 * c\<bar> < 1"
  using scaled_truncate [OF assms, of 32767]
  by (simp add: scale_S16_eq int16_of_float_Some)

lemma enc_S24:
  assumes "\<bar>c\<bar> \<le> 1"
  shows "\<exists>t. int32_of_float (fmul scale_S24 c) = Some (word_of_int t) \<and> t = truncate_int (fmul 16777215 c) \<and>
             \<bar>t\<bar> \<le> 16777215 \<and> \<bar>of_int t - 16777215 * c\<bar> < 1"
  using scaled_truncate [OF assms, of 16777215]
  by (simp add: scale_S24_eq int32_of_float_Some)



lemma dec_S16: "\<bar>t\<bar> \<le> 2 ^ 15 \<Longrightarrow> fmul inv_scale_S16 (float_of_int t) = of_int t / 2 ^ 15"
proof -
  assume t: "\<bar>t\<bar> \<le> 2 ^ 15"
  then have r: "\<bar>of_int t :: real\<bar> \<le> 2 ^ 15" by (metis of_int_abs of_int_le_iff of_int_numeral of_int_power)
  then have "float_of_int t = of_int t" by (simp add: float_of_int_def round_f32_int)
  moreover have "round_f32 (of_int t * (1 / 2 ^ 15)) = of_int t * (1 / 2 ^ 15)"
  proof (rule round_f32_exact [OF grid_inv_pow2 [of 15], of _ t])
    have "\<bar>of_int t * (1 / 2 ^ 15) :: real\<bar> \<le> 1" using r by simp
    then show "\<bar>of_int t * (1 / 2 ^ 15) :: real\<bar> < 2 ^ 24 * (1 / 2 ^ 15)" by simp
  qed simp_all
  ultimately show ?thesis by (simp add: fmul_def inv_scale_S16_eq mult.commute)
qed

lemma dec_S24: "\<bar>t\<bar> < 2 ^ 24 \<Longrightarrow> fmul inv_scale_S24 (float_of_int t) = of_int t / 2 ^ 24"
proof -
  assume t: "\<bar>t\<bar> < 2 ^ 24"
  then have r: "\<bar>of_int t :: real\<bar> < 2 ^ 24" by (metis of_int_abs of_int_less_iff of_int_numeral of_int_power)
  then have "float_of_int t = of_int t" by (simp add: float_of_int_def round_f32_int)
  moreover have "round_f32 (of_int t * (1 / 2 ^ 24)) = of_int t * (1 / 2 ^ 24)"
  proof (rule round_f32_exact [OF grid_inv_pow2 [of 24], of _ t])
    show "\<bar>of_int t * (1 / 2 ^ 24) :: real\<bar> < 2 ^ 24 * (1 / 2 ^ 24)" using r by simp
  qed simp_all
  ultimately show ?thesis by (simp add: fmul_def inv_scale_S24_eq mult.commute)
qed

lemma dec_S32:
  assumes "\<bar>t\<bar> \<le> 2 ^ 31"
  shows "\<bar>fmul inv_scale_S32 (float_of_int t) - of_int t / 2 ^ 31\<bar> < 1 / 2 ^ 22"
proof -
  let ?a = "round_f32 (of_int t)"
  from assms have r: "\<bar>of_int t :: real\<bar> \<le> 2 ^ 31" by (metis of_int_abs of_int_le_iff of_int_numeral of_int_power)
  from round_f32_error_le [OF r] have e1: "\<bar>?a - of_int t\<bar> \<le> 128" by simp
  with r have a: "\<bar>?a\<bar> \<le> 2 ^ 31 + 128" by linarith
  let ?w = "1 / 2 ^ 31 * ?a"
  have w: "\<bar>?w\<bar> \<le> 2" using a by (simp add: abs_mult)
  from round_f32_error_le [OF w] have e2: "\<bar>round_f32 ?w - ?w\<bar> \<le> 2 / 2 ^ 24" by simp
  have "?w - of_int t / 2 ^ 31 = (?a - of_int t) / 2 ^ 31" by (simp add: field_simps)
  then have "\<bar>?w - of_int t / 2 ^ 31\<bar> = \<bar>?a - of_int t\<bar> / 2 ^ 31"
    by (simp only: abs_divide) simp
  also have "\<dots> \<le> 128 / 2 ^ 31" using e1 by (simp add: divide_right_mono)
  finally have e3: "\<bar>?w - of_int t / 2 ^ 31\<bar> \<le> 128 / 2 ^ 31" .
  have f: "fmul inv_scale_S32 (float_of_int t) = round_f32 ?w"
    by (simp add: fmul_def inv_scale_S32_eq float_of_int_def)
  have "\<bar>round_f32 ?w - of_int t / 2 ^ 31\<bar> \<le> \<bar>round_f32 ?w - ?w\<bar> + \<bar>?w - of_int t / 2 ^ 31\<bar>"
    by linarith
  also have "\<dots> \<le> 2 / 2 ^ 24 + 128 / 2 ^ 31" using e2 e3 by linarith
  also have "\<dots> < 1 / 2 ^ 22" by simp
  finally show ?thesis unfolding f .
qed

lemma truncate_near: "\<bar>of_int (truncate_int y) - y\<bar> < 1"
  unfolding truncate_int_def by (simp split: if_splits) linarith

lemma abs_chain: "\<bar>a - b\<bar> < e1 \<Longrightarrow> \<bar>b - c\<bar> < e2 \<Longrightarrow> e1 + e2 \<le> e \<Longrightarrow> \<bar>a - c\<bar> < e"
  for a b c :: real
  by linarith

lemma enc_S32:
  assumes "\<bar>c\<bar> \<le> 1 - 1 / 2 ^ 24"
  shows "\<exists>t. int32_of_float (fmul scale_S32 c) = Some (word_of_int t) \<and>
             \<bar>t\<bar> \<le> 2147483520 \<and> \<bar>of_int t - 2147483648 * c\<bar> < 129"
proof -
  let ?z = "2147483648 * c"
  let ?y = "round_f32 ?z"
  have "\<bar>?z\<bar> = 2147483648 * \<bar>c\<bar>" by (simp add: abs_mult)
  also have "\<dots> \<le> 2147483648 * (1 - 1 / 2 ^ 24)" using assms by (intro mult_left_mono) simp_all
  finally have z: "\<bar>?z\<bar> \<le> 2147483520" by simp
  have g: "grid 128" using grid_pow2 [of 7] by simp
  have s: "\<bar>?z\<bar> < 2 ^ 24 * 128" using z by simp
  have "of_int (- 16777215) * 128 \<le> ?z" "?z \<le> of_int 16777215 * 128" using z by simp_all
  with round_f32_grid_ge [OF g s, of "- 16777215"] round_f32_grid_le [OF g s, of 16777215]
  have y: "of_int (- 2147483520) \<le> ?y" "?y \<le> of_int 2147483520" by simp_all
  from truncate_between [OF y] have t: "\<bar>truncate_int ?y\<bar> \<le> 2147483520" by linarith
  have "\<bar>?z\<bar> \<le> 2 ^ 31" using z by simp
  from round_f32_error_le [OF this] have e: "\<bar>?y - ?z\<bar> \<le> 128" by simp
  from truncate_near [of ?y] e have n: "\<bar>of_int (truncate_int ?y) - ?z\<bar> < 129" by linarith
  have "int32_of_float ?y = Some (word_of_int (truncate_int ?y))"
    using t by (intro int32_of_float_Some) simp
  with t n show ?thesis by (auto simp add: fmul_def scale_S32_eq)
qed

lemma rt_S16:
  assumes "\<bar>x\<bar> \<le> 1"
  shows "\<exists>w. int16_of_float (fmul scale_S16 (clamp1 x)) = Some w \<and>
             \<bar>fmul inv_scale_S16 (float_of_int (sint w)) - x\<bar> < 1 / 2 ^ 14"
proof -
  from enc_S16 [OF assms] obtain t where t: "int16_of_float (fmul scale_S16 x) = Some (word_of_int t)"
    "\<bar>t\<bar> \<le> 32767" "\<bar>of_int t - 32767 * x\<bar> < 1" by blast
  from t(2) have s: "sint (word_of_int t :: 16 word) = t" by (intro sint16_of_int) simp_all
  from t(2) have d: "fmul inv_scale_S16 (float_of_int t) = of_int t / 2 ^ 15" by (intro dec_S16) simp
  have "\<bar>of_int t / 2 ^ 15 - x\<bar> = \<bar>of_int t - 32768 * x\<bar> / 2 ^ 15"
  proof -
    have "of_int t / 2 ^ 15 - x = (of_int t - 32768 * x) / 2 ^ 15" by (simp add: field_simps)
    then show ?thesis by (simp only: abs_divide) simp
  qed
  also have "\<bar>of_int t - 32768 * x\<bar> < 2" using t(3) assms by linarith
  finally have "\<bar>of_int t / 2 ^ 15 - x\<bar> < 1 / 2 ^ 14" by simp
  then have "\<bar>fmul inv_scale_S16 (float_of_int (sint (word_of_int t :: 16 word))) - x\<bar> < 1 / 2 ^ 14"
    unfolding s d .
  with t(1) show ?thesis unfolding clamp1_id [OF assms] by blast
qed

lemma rt_S24:
  assumes "\<bar>x\<bar> \<le> 1"
  shows "\<exists>w. int32_of_float (fmul scale_S24 (clamp1 x)) = Some w \<and>
             \<bar>fmul inv_scale_S24 (float_of_int (sint w)) - x\<bar> < 1 / 2 ^ 23"
proof -
  from enc_S24 [OF assms] obtain t where t: "int32_of_float (fmul scale_S24 x) = Some (word_of_int t)"
    "\<bar>t\<bar> \<le> 16777215" "\<bar>of_int t - 16777215 * x\<bar> < 1" by blast
  from t(2) have s: "sint (word_of_int t :: 32 word) = t" by (intro sint32_of_int) simp_all
  from t(2) have d: "fmul inv_scale_S24 (float_of_int t) = of_int t / 2 ^ 24" by (intro dec_S24) simp
  have "\<bar>of_int t / 2 ^ 24 - x\<bar> = \<bar>of_int t - 16777216 * x\<bar> / 2 ^ 24"
  proof -
    have "of_int t / 2 ^ 24 - x = (of_int t - 16777216 * x) / 2 ^ 24" by (simp add: field_simps)
    then show ?thesis by (simp only: abs_divide) simp
  qed
  also have "\<bar>of_int t - 16777216 * x\<bar> < 2" using t(3) assms by linarith
  finally have "\<bar>of_int t / 2 ^ 24 - x\<bar> < 1 / 2 ^ 23" by simp
  then have "\<bar>fmul inv_scale_S24 (float_of_int (sint (word_of_int t :: 32 word))) - x\<bar> < 1 / 2 ^ 23"
    unfolding s d .
  with t(1) show ?thesis unfolding clamp1_id [OF assms] by blast
qed

lemma rt_S32:
  assumes "\<bar>x\<bar> \<le> 1 - 1 / 2 ^ 24"
  shows "\<exists>w. int32_of_float (fmul scale_S32 (clamp1 x)) = Some w \<and>
             \<bar>fmul inv_scale_S32 (float_of_int (sint w)) - x\<bar> < 1 / 2 ^ 21 \<and>
             \<bar>fmul inv_scale_S32 (float_of_int (sint (push_bit 8 (signed_drop_bit 8 w)))) - x\<bar> < 1 / 2 ^ 21"
proof -
  from assms have x1: "\<bar>x\<bar> \<le> 1" by simp
  from enc_S32 [OF assms] obtain t where t: "int32_of_float (fmul scale_S32 x) = Some (word_of_int t)"
    "\<bar>t\<bar> \<le> 2147483520" "\<bar>of_int t - 2147483648 * x\<bar> < 129" by blast
  let ?w = "word_of_int t :: 32 word"
  from t(2) have s: "sint ?w = t" by (intro sint32_of_int) simp_all
  have a: "\<bar>fmul inv_scale_S32 (float_of_int t) - of_int t / 2 ^ 31\<bar> < 1 / 2 ^ 22"
    using t(2) by (intro dec_S32) simp
  have b: "\<bar>of_int t / 2 ^ 31 - x\<bar> < 129 / 2 ^ 31"
  proof -
    have "of_int t / 2 ^ 31 - x = (of_int t - 2147483648 * x) / 2 ^ 31" by (simp add: field_simps)
    then have "\<bar>of_int t / 2 ^ 31 - x\<bar> = \<bar>of_int t - 2147483648 * x\<bar> / 2 ^ 31"
      by (simp only: abs_divide) simp
    with t(3) show ?thesis by (simp add: divide_strict_right_mono)
  qed
  have 1: "\<bar>fmul inv_scale_S32 (float_of_int (sint ?w)) - x\<bar> < 1 / 2 ^ 21"
    unfolding s using a b by (rule abs_chain) simp
  define t' where "t' = 256 * (t div 256)"
  have s': "sint (push_bit 8 (signed_drop_bit 8 ?w)) = t'"
    by (simp add: sint_clear_low_byte s t'_def)
  have t': "t - 255 \<le> t'" "t' \<le> t" by (simp_all add: t'_def)
  have "- 2147483520 \<le> t" using t(2) by linarith
  then have "(- 2147483520) div 256 \<le> t div 256" by (rule zdiv_mono1) simp
  then have "- 2147483648 \<le> t'" by (simp add: t'_def)
  with t(2) t'(2) have "\<bar>t'\<bar> \<le> 2147483648" by linarith
  then have "\<bar>t'\<bar> \<le> 2 ^ 31" by simp
  then have a': "\<bar>fmul inv_scale_S32 (float_of_int t') - of_int t' / 2 ^ 31\<bar> < 1 / 2 ^ 22"
    by (rule dec_S32)
  have "\<bar>(of_int t' :: real) - of_int t\<bar> \<le> 255"
  proof -
    from t' have "\<bar>t' - t\<bar> \<le> 255" by linarith
    then have "(of_int \<bar>t' - t\<bar> :: real) \<le> of_int 255" by (simp only: of_int_le_iff)
    then show ?thesis by simp
  qed
  with t(3) have h: "\<bar>of_int t' - 2147483648 * x\<bar> < 384" by linarith
  have b': "\<bar>of_int t' / 2 ^ 31 - x\<bar> < 384 / 2 ^ 31"
  proof -
    have "of_int t' / 2 ^ 31 - x = (of_int t' - 2147483648 * x) / 2 ^ 31" by (simp add: field_simps)
    then have "\<bar>of_int t' / 2 ^ 31 - x\<bar> = \<bar>of_int t' - 2147483648 * x\<bar> / 2 ^ 31"
      by (simp only: abs_divide) simp
    with h show ?thesis by (simp add: divide_strict_right_mono)
  qed
  have 2: "\<bar>fmul inv_scale_S32 (float_of_int (sint (push_bit 8 (signed_drop_bit 8 ?w)))) - x\<bar> < 1 / 2 ^ 21"
    unfolding s' using a' b' by (rule abs_chain) simp
  from t(1) 1 2 show ?thesis unfolding clamp1_id [OF x1] by blast
qed

lemma get_put_swap16: "EndianSwap_int16 (get_int16 (put_int16 (EndianSwap_int16 w))) = w"
  by (simp add: get_put_int16 EndianSwap_int16_twice)

lemma get_put_swap32: "EndianSwap_int32 (get_int32 (put_int32 (EndianSwap_int32 w))) = w"
  by (simp add: get_put_int32 EndianSwap_int32_twice)





lemma ulp32_1_5: "ulp32 (3 / 2) = 1 / 2 ^ 23"
  by (simp add: ulp32_def denorm_min_def eval_nat_numeral)






lemma S24_3_Be_pack:
  "S24_3_word ([ucast (signed_drop_bit 24 iv), ucast (signed_drop_bit 16 iv), ucast (signed_drop_bit 8 iv)] ! 2)
     ([ucast (signed_drop_bit 24 iv), ucast (signed_drop_bit 16 iv), ucast (signed_drop_bit 8 iv)] ! 1)
     ([ucast (signed_drop_bit 24 iv), ucast (signed_drop_bit 16 iv), ucast (signed_drop_bit 8 iv)] ! 0)
     = push_bit 8 (signed_drop_bit 8 iv)" for iv :: "32 word"
  using S24_3_Le_pack [of iv] by simp

lemma ulp32_cx1: "ulp32 (64879 / 65536) = 1 / 2 ^ 24"
  by (simp add: ulp32_def denorm_min_def eval_nat_numeral)

lemma ulp32_cx2: "ulp32 (2125890193 / 65536) = 1 / 2 ^ 9"
  by (simp add: ulp32_def denorm_min_def eval_nat_numeral)

lemma sample_round_trip:
  "(\<forall>x. \<bar>x\<bar> \<le> 1 - 1 / 2 ^ 24 \<longrightarrow>
      (\<exists>p. CopyPlaybackS16Le_body x = Some p \<and> \<bar>CopyCaptureS16Le_body p - x\<bar> < 1 / 2 ^ 14) \<and>
      (\<exists>p. CopyPlaybackS16Be_body x = Some p \<and> \<bar>CopyCaptureS16Be_body p - x\<bar> < 1 / 2 ^ 14) \<and>
      (\<exists>p. CopyPlaybackS32Le_body x = Some p \<and> \<bar>CopyCaptureS32Le_body p - x\<bar> < 4 / 10 ^ 5) \<and>
      (\<exists>p. CopyPlaybackS32Be_body x = Some p \<and> \<bar>CopyCaptureS32Be_body p - x\<bar> < 4 / 10 ^ 5) \<and>
      (\<exists>p. CopyPlaybackS24Le_body x = Some p \<and> \<bar>CopyCaptureS24Le_body p - x\<bar> < 4 / 10 ^ 5) \<and>
      (\<exists>p. CopyPlaybackS24Be_body x = Some p \<and> \<bar>CopyCaptureS24Be_body p - x\<bar> < 4 / 10 ^ 5) \<and>
      (\<exists>p. CopyPlaybackS24_3Le_body x = Some p \<and> \<bar>CopyCaptureS24_3Le_body p - x\<bar> < 4 / 10 ^ 5) \<and>
      (\<exists>p. CopyPlaybackS24_3Be_body x = Some p \<and> \<bar>CopyCaptureS24_3Be_body p - x\<bar> < 4 / 10 ^ 5)) \<and>
   (\<forall>w. (\<exists>p. CopyPlaybackFloatLe_body w = Some p \<and> CopyCaptureFloatLe_body p = w) \<and>
        (\<exists>p. CopyPlaybackFloatBe_body w = Some p \<and> CopyCaptureFloatBe_body p = w))"
proof (intro conjI allI impI)
  fix w :: "32 word"
  show "\<exists>p. CopyPlaybackFloatLe_body w = Some p \<and> CopyCaptureFloatLe_body p = w"
    by (simp add: CopyPlaybackFloatLe_body_def CopyCaptureFloatLe_body_def get_put_int32)
  show "\<exists>p. CopyPlaybackFloatBe_body w = Some p \<and> CopyCaptureFloatBe_body p = w"
    by (simp add: CopyPlaybackFloatBe_body_def CopyCaptureFloatBe_body_def get_put_swap32)
next
  fix x :: real
  assume x: "\<bar>x\<bar> \<le> 1 - 1 / 2 ^ 24"
  then have x1: "\<bar>x\<bar> \<le> 1" by simp
  from rt_S16 [OF x1] obtain w16 :: "16 word" where
    w16: "int16_of_float (fmul scale_S16 (clamp1 x)) = Some w16"
      "\<bar>fmul inv_scale_S16 (float_of_int (sint w16)) - x\<bar> < 1 / 2 ^ 14" by blast
  show "\<exists>p. CopyPlaybackS16Le_body x = Some p \<and> \<bar>CopyCaptureS16Le_body p - x\<bar> < 1 / 2 ^ 14"
    using w16 by (simp add: CopyPlaybackS16Le_body_def CopyCaptureS16Le_body_def get_put_int16)
  show "\<exists>p. CopyPlaybackS16Be_body x = Some p \<and> \<bar>CopyCaptureS16Be_body p - x\<bar> < 1 / 2 ^ 14"
    using w16 by (simp add: CopyPlaybackS16Be_body_def CopyCaptureS16Be_body_def get_put_swap16)
  from rt_S24 [OF x1] obtain w24 :: "32 word" where
    w24: "int32_of_float (fmul scale_S24 (clamp1 x)) = Some w24"
      "\<bar>fmul inv_scale_S24 (float_of_int (sint w24)) - x\<bar> < 1 / 2 ^ 23" by blast
  have b24: "\<bar>fmul inv_scale_S24 (float_of_int (sint w24)) - x\<bar> < 4 / 10 ^ 5"
    using w24(2) by simp
  show "\<exists>p. CopyPlaybackS24Le_body x = Some p \<and> \<bar>CopyCaptureS24Le_body p - x\<bar> < 4 / 10 ^ 5"
    using w24(1) b24 by (simp add: CopyPlaybackS24Le_body_def CopyCaptureS24Le_body_def get_put_int32)
  show "\<exists>p. CopyPlaybackS24Be_body x = Some p \<and> \<bar>CopyCaptureS24Be_body p - x\<bar> < 4 / 10 ^ 5"
    using w24(1) b24 by (simp add: CopyPlaybackS24Be_body_def CopyCaptureS24Be_body_def get_put_swap32)
  from rt_S32 [OF x] obtain w32 :: "32 word" where
    w32: "int32_of_float (fmul scale_S32 (clamp1 x)) = Some w32"
      "\<bar>fmul inv_scale_S32 (float_of_int (sint w32)) - x\<bar> < 1 / 2 ^ 21"
      "\<bar>fmul inv_scale_S32 (float_of_int (sint (push_bit 8 (signed_drop_bit 8 w32)))) - x\<bar> < 1 / 2 ^ 21"
    by blast
  have b32: "\<bar>fmul inv_scale_S32 (float_of_int (sint w32)) - x\<bar> < 4 / 10 ^ 5"
    "\<bar>fmul inv_scale_S32 (float_of_int (sint (push_bit 8 (signed_drop_bit 8 w32)))) - x\<bar> < 4 / 10 ^ 5"
    using w32(2,3) by simp_all
  show "\<exists>p. CopyPlaybackS32Le_body x = Some p \<and> \<bar>CopyCaptureS32Le_body p - x\<bar> < 4 / 10 ^ 5"
    using w32(1) b32(1) by (simp add: CopyPlaybackS32Le_body_def CopyCaptureS32Le_body_def get_put_int32)
  show "\<exists>p. CopyPlaybackS32Be_body x = Some p \<and> \<bar>CopyCaptureS32Be_body p - x\<bar> < 4 / 10 ^ 5"
    using w32(1) b32(1) by (simp add: CopyPlaybackS32Be_body_def CopyCaptureS32Be_body_def get_put_swap32)
  show "\<exists>p. CopyPlaybackS24_3Le_body x = Some p \<and> \<bar>CopyCaptureS24_3Le_body p - x\<bar> < 4 / 10 ^ 5"
    using w32(1) b32(2)
    by (simp add: CopyPlaybackS24_3Le_body_def CopyCaptureS24_3Le_body_def S24_3_Le_pack)
  show "\<exists>p. CopyPlaybackS24_3Be_body x = Some p \<and> \<bar>CopyCaptureS24_3Be_body p - x\<bar> < 4 / 10 ^ 5"
    using w32(1) b32(2)
    by (simp add: CopyPlaybackS24_3Be_body_def CopyCaptureS24_3Be_body_def S24_3_Le_pack)
qed

subsection \<open>The loops over frames and channels\<close>
lemma playback_steps_Some:
  assumes "\<forall>(f, c)\<in>set ixs. c < length buffers \<and> f < length (buffers ! c) \<and>
              (\<exists>bs. body (buffers ! c ! f) = Some bs \<and> length bs = k)"
    and "p + k * length ixs \<le> length raw"
  shows "playback_steps body buffers ixs p raw =
    Some (take p raw @ concat (map (\<lambda>(f, c). the (body (buffers ! c ! f))) ixs) @
          drop (p + k * length ixs) raw)"
  using assms
proof (induction ixs arbitrary: p raw)
  case Nil
  then show ?case by simp
next
  case (Cons ix ixs)
  obtain f c where ix: "ix = (f, c)" by (cases ix)
  from Cons.prems(1) ix obtain bs where b: "c < length buffers" "f < length (buffers ! c)"
    "body (buffers ! c ! f) = Some bs" "length bs = k" by auto
  let ?raw1 = "take p raw @ bs @ drop (p + k) raw"
  from Cons.prems(2) have pk: "p + k \<le> length raw" by simp
  then have l1: "length ?raw1 = length raw" using b(4) by simp
  have t1: "take (p + k) ?raw1 = take p raw @ bs" using pk b(4) by simp
  have d1: "drop (p + k + k * length ixs) ?raw1 = drop (p + k + k * length ixs) raw"
    using pk b(4) by (simp add: add.commute)
  have step: "playback_steps body buffers (ix # ixs) p raw =
      playback_steps body buffers ixs (p + k) ?raw1"
    using b pk by (simp add: ix)
  have "playback_steps body buffers ixs (p + k) ?raw1 =
      Some (take (p + k) ?raw1 @ concat (map (\<lambda>(f, c). the (body (buffers ! c ! f))) ixs) @
          drop (p + k + k * length ixs) ?raw1)"
    using Cons.prems l1 by (intro Cons.IH) (simp_all add: algebra_simps)
  then have ih: "playback_steps body buffers ixs (p + k) ?raw1 =
      Some ((take p raw @ bs) @ concat (map (\<lambda>(f, c). the (body (buffers ! c ! f))) ixs) @
          drop (p + k + k * length ixs) raw)"
    by (simp only: t1 d1)
  have c: "concat (map (\<lambda>(f, c). the (body (buffers ! c ! f))) (ix # ixs)) =
      bs @ concat (map (\<lambda>(f, c). the (body (buffers ! c ! f))) ixs)"
    using b(3) by (simp add: ix)
  have n: "p + k * length (ix # ixs) = p + k + k * length ixs" by simp
  show ?case unfolding step ih c n by simp
qed

lemma playback_steps_None:
  assumes "\<exists>(f, c)\<in>set ixs. \<not> c < length buffers"
  shows "playback_steps body buffers ixs p raw = None"
  using assms
proof (induction ixs arbitrary: p raw)
  case Nil
  then show ?case by simp
next
  case (Cons ix ixs)
  obtain f c where ix: "ix = (f, c)" by (cases ix)
  show ?case
  proof (cases "c < length buffers")
    case False
    then show ?thesis by (simp add: ix)
  next
    case True
    with Cons.prems ix have "\<exists>(f, c)\<in>set ixs. \<not> c < length buffers" by auto
    from Cons.IH [OF this] show ?thesis by (simp add: ix split: option.splits)
  qed
qed

lemma copy_playback_Some:
  assumes "channels \<le> length buffers"
    and "\<forall>c<channels. frames \<le> length (buffers ! c)"
    and "\<forall>w. \<exists>bs. body w = Some bs \<and> length bs = k"
    and "k * (frames * channels) \<le> length raw"
  shows "copy_playback body channels frames buffers raw =
    Some (concat (map (\<lambda>(f, c). the (body (buffers ! c ! f)))
                   (List.product [0..<frames] [0..<channels])) @
          drop (k * (frames * channels)) raw)"
proof -
  have "playback_steps body buffers (List.product [0..<frames] [0..<channels]) 0 raw =
    Some (take 0 raw @ concat (map (\<lambda>(f, c). the (body (buffers ! c ! f)))
                   (List.product [0..<frames] [0..<channels])) @
          drop (0 + k * length (List.product [0..<frames] [0..<channels])) raw)"
    using assms by (intro playback_steps_Some) auto
  then show ?thesis by (simp add: copy_playback_def)
qed

lemma copy_playback_None:
  assumes "length buffers < channels" and "0 < frames"
  shows "copy_playback body channels frames buffers raw = None"
  unfolding copy_playback_def
proof (rule playback_steps_None)
  have "(0, length buffers) \<in> set (List.product [0..<frames] [0..<channels])"
    using assms by simp
  then show "\<exists>(f, c)\<in>set (List.product [0..<frames] [0..<channels]). \<not> c < length buffers"
    by (intro bexI [of _ "(0, length buffers)"]) simp_all
qed

lemma copy_playback_one_frame:
  assumes "m \<le> p" and "body w = Some bs" and "length bs = k"
    and "\<forall>w. \<exists>bs. body w = Some bs \<and> length bs = k"
  shows "copy_playback body m 1 (replicate p [w]) (replicate (k * p) 0) =
    Some (concat (replicate m bs) @ replicate (k * (p - m)) 0)"
proof -
  have "map (\<lambda>(f, c). the (body (replicate p [w] ! c ! f))) (List.product [0..<1] [0..<m]) =
      map (\<lambda>c. bs) [0..<m]"
    using assms(1,2) by (simp add: comp_def)
  then have c: "concat (map (\<lambda>(f, c). the (body (replicate p [w] ! c ! f)))
          (List.product [0..<1] [0..<m])) = concat (replicate m bs)"
    by (simp add: map_replicate_const)
  have "copy_playback body m 1 (replicate p [w]) (replicate (k * p) 0) =
    Some (concat (map (\<lambda>(f, c). the (body (replicate p [w] ! c ! f)))
                   (List.product [0..<1] [0..<m])) @
          drop (k * (1 * m)) (replicate (k * p) 0))"
    using assms(1,4) by (intro copy_playback_Some) simp_all
  then show ?thesis unfolding c by (simp add: right_diff_distrib')
qed

lemma concat_replicate_Suc:
  "concat (replicate (m + Suc n) (b # rest)) =
      concat (replicate m (b # rest)) @ (b # rest) @ concat (replicate n (b # rest))"
  unfolding replicate_add replicate_Suc concat_append concat.simps ..

lemma replicate_zero_head:
  assumes r: "replicate j (0 :: 'a :: zero) = (b # rest) @ ys"
  shows "b = 0"
proof -
  have "b \<in> set ((b # rest) @ ys)"
    by simp
  then have "b \<in> set (replicate j (0 :: 'a))"
    unfolding r [symmetric] .
  then show "b = 0"
    by (simp only: in_set_replicate)
qed

lemma concat_replicate_differs:
  assumes "m < p" and "b \<noteq> 0"
  shows "concat (replicate m (b # rest)) @ replicate j 0 \<noteq> concat (replicate p (b # rest))"
proof
  assume e: "concat (replicate m (b # rest)) @ replicate j 0 = concat (replicate p (b # rest))"
  from assms(1) obtain n where n: "p = m + Suc n"
    using less_imp_Suc_add [of m p] by auto
  have "concat (replicate m (b # rest)) @ replicate j 0 =
      concat (replicate (m + Suc n) (b # rest))"
    by (rule e [unfolded n])
  then have "concat (replicate m (b # rest)) @ replicate j 0 =
      concat (replicate m (b # rest)) @ (b # rest) @ concat (replicate n (b # rest))"
    by (simp only: concat_replicate_Suc)
  then have "replicate j 0 = (b # rest) @ concat (replicate n (b # rest))"
    by (simp only: same_append_eq)
  then have "b = 0"
    by (rule replicate_zero_head)
  with assms(2) show False by blast
qed

lemma put_int32_length: "length (put_int32 w) = 4"
  by (simp add: put_int32_def)

lemma float_bodies_total:
  "\<forall>w. \<exists>bs. CopyPlaybackFloatLe_body w = Some bs \<and> length bs = 4"
  "\<forall>w. \<exists>bs. CopyPlaybackFloatBe_body w = Some bs \<and> length bs = 4"
  by (simp_all add: CopyPlaybackFloatLe_body_def CopyPlaybackFloatBe_body_def put_int32_length)

lemma float_bodies_one:
  "CopyPlaybackFloatLe_body 0x3F800001 = Some [0x01, 0x00, 0x80, 0x3F]"
  "CopyPlaybackFloatBe_body 0x3F800001 = Some [0x3F, 0x80, 0x00, 0x01]"
  by (simp_all add: CopyPlaybackFloatLe_body_def CopyPlaybackFloatBe_body_def put_int32_def
      EndianSwap_int32_def drop_bit_eq_div)

lemma playback_into_differs:
  assumes "c \<noteq> p" and "body 0x3F800001 = Some (b # rest)" and "length (b # rest) = 4"
    and "b \<noteq> 0" and "\<forall>w. \<exists>bs. body w = Some bs \<and> length bs = 4"
  shows "playback_into body c 1 (one_frame c p) \<noteq> playback_into body p 1 (one_frame c p)"
proof -
  have sp: "copy_playback body p 1 (replicate p [0x3F800001]) (replicate (4 * p) 0) =
      Some (concat (replicate p (b # rest)) @ replicate (4 * (p - p)) 0)"
    using assms(2,3,5) by (intro copy_playback_one_frame) simp_all
  show ?thesis
  proof (cases "c < p")
    case True
    have "copy_playback body c 1 (replicate p [0x3F800001]) (replicate (4 * p) 0) =
      Some (concat (replicate c (b # rest)) @ replicate (4 * (p - c)) 0)"
      using assms(2,3,5) True by (intro copy_playback_one_frame) simp_all
    moreover have "concat (replicate c (b # rest)) @ replicate (4 * (p - c)) 0 \<noteq>
        concat (replicate p (b # rest))"
      using True assms(4) by (rule concat_replicate_differs)
    ultimately show ?thesis using sp
      by (simp add: playback_into_def one_frame_def)
  next
    case False
    with assms(1) have "length (replicate p [0x3F800001 :: 32 word]) < c" by simp
    then have "copy_playback body c 1 (replicate p [0x3F800001]) (replicate (4 * p) 0) = None"
      by (intro copy_playback_None) simp_all
    then show ?thesis using sp by (simp add: playback_into_def one_frame_def)
  qed
qed

lemma playback_into_Some:
  assumes "channels \<le> length (playbackBuffers d)"
    and "\<forall>c<channels. frames \<le> length (playbackBuffers d ! c)"
    and "\<forall>w. \<exists>bs. body w = Some bs \<and> length bs = k"
    and "k * (frames * channels) \<le> length (rawPlaybackBuffer d)"
  shows "playback_into body channels frames d =
    Some (d\<lparr>rawPlaybackBuffer :=
            concat (map (\<lambda>(f, c). the (body (playbackBuffers d ! c ! f)))
                     (List.product [0..<frames] [0..<channels])) @
            drop (k * (frames * channels)) (rawPlaybackBuffer d)\<rparr>)"
  unfolding playback_into_def copy_playback_Some [OF assms] by simp

lemma upt_2: "[0..<2] = [0, 1]" "[0..<1] = [0]" "[0..<3] = [0, 1, 2]"
  by (simp_all add: upt_rec)

lemma put_int32_one: "put_int32 0x3F800001 = [0x01, 0x00, 0x80, 0x3F]"
  using float_bodies_one(1) by (simp add: CopyPlaybackFloatLe_body_def)

lemma one_frame_simps:
  "captureChannels (one_frame c p) = c" "playbackChannels (one_frame c p) = p"
  "playbackBuffers (one_frame c p) = replicate p [0x3F800001]"
  "rawPlaybackBuffer (one_frame c p) = replicate (4 * p) 0"
  by (simp_all add: one_frame_def)

lemma replicate_zeros:
  "replicate 4 (0 :: 8 word) = [0, 0, 0, 0]"
  "concat (replicate 1 xs) = xs" "concat (replicate 2 xs) = xs @ xs"
  by (simp_all add: eval_nat_numeral)

lemma one_frame_1_2_le: "CopyPlaybackFloatLe 1 (one_frame 1 2) =
     Some ((one_frame 1 2)\<lparr>rawPlaybackBuffer := [0x01, 0x00, 0x80, 0x3F, 0x00, 0x00, 0x00, 0x00]\<rparr>)"
  using copy_playback_one_frame [of 1 2 CopyPlaybackFloatLe_body "0x3F800001" _ 4,
      OF _ float_bodies_one(1) _ float_bodies_total(1)]
  by (simp add: CopyPlaybackFloatLe_def playback_into_def one_frame_simps replicate_zeros)

lemma one_frame_1_2_le_spec: "CopyPlaybackFloatLe_spec 1 (one_frame 1 2) =
     Some ((one_frame 1 2)\<lparr>rawPlaybackBuffer := [0x01, 0x00, 0x80, 0x3F, 0x01, 0x00, 0x80, 0x3F]\<rparr>)"
  using copy_playback_one_frame [of 2 2 CopyPlaybackFloatLe_body "0x3F800001" _ 4,
      OF _ float_bodies_one(1) _ float_bodies_total(1)]
  by (simp add: CopyPlaybackFloatLe_spec_def playback_into_def one_frame_simps replicate_zeros)

lemma one_frame_3_2_le: "CopyPlaybackFloatLe 1 (one_frame 3 2) = None"
  using copy_playback_None [of "replicate 2 [0x3F800001 :: 32 word]" 3 1 CopyPlaybackFloatLe_body]
  by (simp add: CopyPlaybackFloatLe_def playback_into_def one_frame_simps)

text \<open>
  Claim C10 (the \<open>F32\<close> playback functions run over the capture channels).
  \<open>CopyPlaybackFloatLe\<close> and \<open>CopyPlaybackFloatBe\<close> write, for each frame, exactly
  \<open>captureChannels\<close> samples, those of the first \<open>captureChannels\<close> playback buffers,
  interleaved, and leave the rest of the raw playback buffer as it was. When the two
  channel counts are equal this is the rule of the specification, one sample per
  playback channel; for any two different counts there are buffers, allocated for
  these counts, on which the result differs from that rule.
\<close>

theorem f32_playback_capture_channels:
  "(\<forall>frames d.
      captureChannels d \<le> length (playbackBuffers d) \<and>
      (\<forall>c<captureChannels d. frames \<le> length (playbackBuffers d ! c)) \<and>
      4 * (frames * captureChannels d) \<le> length (rawPlaybackBuffer d) \<longrightarrow>
      CopyPlaybackFloatLe frames d =
        Some (d\<lparr>rawPlaybackBuffer :=
                concat (map (\<lambda>(f, c). put_int32 (playbackBuffers d ! c ! f))
                         (List.product [0..<frames] [0..<captureChannels d])) @
                drop (4 * (frames * captureChannels d)) (rawPlaybackBuffer d)\<rparr>) \<and>
      CopyPlaybackFloatBe frames d =
        Some (d\<lparr>rawPlaybackBuffer :=
                concat (map (\<lambda>(f, c). put_int32 (EndianSwap_int32 (playbackBuffers d ! c ! f)))
                         (List.product [0..<frames] [0..<captureChannels d])) @
                drop (4 * (frames * captureChannels d)) (rawPlaybackBuffer d)\<rparr>)) \<and>
   (\<forall>frames d. captureChannels d = playbackChannels d \<longrightarrow>
      CopyPlaybackFloatLe frames d = CopyPlaybackFloatLe_spec frames d \<and>
      CopyPlaybackFloatBe frames d = CopyPlaybackFloatBe_spec frames d) \<and>
   (\<forall>c p. c \<noteq> p \<longrightarrow>
      CopyPlaybackFloatLe 1 (one_frame c p) \<noteq> CopyPlaybackFloatLe_spec 1 (one_frame c p) \<and>
      CopyPlaybackFloatBe 1 (one_frame c p) \<noteq> CopyPlaybackFloatBe_spec 1 (one_frame c p))"
proof (intro conjI allI impI)
  fix frames and d :: "(32 word) audio_buffers"
  assume a: "captureChannels d \<le> length (playbackBuffers d) \<and>
      (\<forall>c<captureChannels d. frames \<le> length (playbackBuffers d ! c)) \<and>
      4 * (frames * captureChannels d) \<le> length (rawPlaybackBuffer d)"
  then have a1: "captureChannels d \<le> length (playbackBuffers d)"
    and a2: "\<forall>c<captureChannels d. frames \<le> length (playbackBuffers d ! c)"
    and a3: "4 * (frames * captureChannels d) \<le> length (rawPlaybackBuffer d)"
    by blast+
  show "CopyPlaybackFloatLe frames d =
        Some (d\<lparr>rawPlaybackBuffer :=
                concat (map (\<lambda>(f, c). put_int32 (playbackBuffers d ! c ! f))
                         (List.product [0..<frames] [0..<captureChannels d])) @
                drop (4 * (frames * captureChannels d)) (rawPlaybackBuffer d)\<rparr>)"
    unfolding CopyPlaybackFloatLe_def
      playback_into_Some [OF a1 a2 float_bodies_total(1) a3]
    by (simp add: CopyPlaybackFloatLe_body_def)
  show "CopyPlaybackFloatBe frames d =
        Some (d\<lparr>rawPlaybackBuffer :=
                concat (map (\<lambda>(f, c). put_int32 (EndianSwap_int32 (playbackBuffers d ! c ! f)))
                         (List.product [0..<frames] [0..<captureChannels d])) @
                drop (4 * (frames * captureChannels d)) (rawPlaybackBuffer d)\<rparr>)"
    unfolding CopyPlaybackFloatBe_def
      playback_into_Some [OF a1 a2 float_bodies_total(2) a3]
    by (simp add: CopyPlaybackFloatBe_body_def)
next
  fix frames and d :: "(32 word) audio_buffers"
  assume "captureChannels d = playbackChannels d"
  then show "CopyPlaybackFloatLe frames d = CopyPlaybackFloatLe_spec frames d"
    and "CopyPlaybackFloatBe frames d = CopyPlaybackFloatBe_spec frames d"
    by (simp_all add: CopyPlaybackFloatLe_def CopyPlaybackFloatLe_spec_def
        CopyPlaybackFloatBe_def CopyPlaybackFloatBe_spec_def)
next
  fix c p :: nat
  assume cp: "c \<noteq> p"
  have "playback_into CopyPlaybackFloatLe_body c 1 (one_frame c p) \<noteq>
      playback_into CopyPlaybackFloatLe_body p 1 (one_frame c p)"
    by (rule playback_into_differs [OF cp float_bodies_one(1) _ _ float_bodies_total(1)])
      simp_all
  then show "CopyPlaybackFloatLe 1 (one_frame c p) \<noteq> CopyPlaybackFloatLe_spec 1 (one_frame c p)"
    by (simp add: CopyPlaybackFloatLe_def CopyPlaybackFloatLe_spec_def one_frame_def)
  have "playback_into CopyPlaybackFloatBe_body c 1 (one_frame c p) \<noteq>
      playback_into CopyPlaybackFloatBe_body p 1 (one_frame c p)"
    by (rule playback_into_differs [OF cp float_bodies_one(2) _ _ float_bodies_total(2)])
      simp_all
  then show "CopyPlaybackFloatBe 1 (one_frame c p) \<noteq> CopyPlaybackFloatBe_spec 1 (one_frame c p)"
    by (simp add: CopyPlaybackFloatBe_def CopyPlaybackFloatBe_spec_def one_frame_def)
qed

theorem f32_playback_capture_channels_witness:
  "CopyPlaybackFloatLe 1 (one_frame 2 2) =
     Some ((one_frame 2 2)\<lparr>rawPlaybackBuffer := [0x01, 0x00, 0x80, 0x3F, 0x01, 0x00, 0x80, 0x3F]\<rparr>) \<and>
   CopyPlaybackFloatLe 1 (one_frame 2 2) = CopyPlaybackFloatLe_spec 1 (one_frame 2 2) \<and>
   CopyPlaybackFloatLe 1 (one_frame 1 2) =
     Some ((one_frame 1 2)\<lparr>rawPlaybackBuffer := [0x01, 0x00, 0x80, 0x3F, 0x00, 0x00, 0x00, 0x00]\<rparr>) \<and>
   CopyPlaybackFloatLe_spec 1 (one_frame 1 2) =
     Some ((one_frame 1 2)\<lparr>rawPlaybackBuffer := [0x01, 0x00, 0x80, 0x3F, 0x01, 0x00, 0x80, 0x3F]\<rparr>) \<and>
   CopyPlaybackFloatLe 1 (one_frame 1 2) \<noteq> CopyPlaybackFloatLe_spec 1 (one_frame 1 2) \<and>
   CopyPlaybackFloatLe 1 (one_frame 3 2) = None \<and>
   CopyPlaybackFloatLe 1 (one_frame 3 2) \<noteq> CopyPlaybackFloatLe_spec 1 (one_frame 3 2)"
proof -
  have a: "CopyPlaybackFloatLe 1 (one_frame 2 2) =
     Some ((one_frame 2 2)\<lparr>rawPlaybackBuffer := [0x01, 0x00, 0x80, 0x3F, 0x01, 0x00, 0x80, 0x3F]\<rparr>)"
    using f32_playback_capture_channels [THEN conjunct1, THEN spec, THEN spec, THEN mp,
        of "one_frame 2 2" 1, THEN conjunct1]
    by (simp add: one_frame_simps upt_2 put_int32_one)
  have b: "CopyPlaybackFloatLe 1 (one_frame 2 2) = CopyPlaybackFloatLe_spec 1 (one_frame 2 2)"
    using f32_playback_capture_channels [THEN conjunct2, THEN conjunct1, THEN spec, THEN spec,
        THEN mp, of "one_frame 2 2" 1, THEN conjunct1]
    by (simp add: one_frame_simps)
  have e: "CopyPlaybackFloatLe 1 (one_frame 1 2) \<noteq> CopyPlaybackFloatLe_spec 1 (one_frame 1 2)"
    using f32_playback_capture_channels [THEN conjunct2, THEN conjunct2, THEN spec, THEN spec,
        THEN mp, of 1 2, THEN conjunct1]
    by simp
  have g: "CopyPlaybackFloatLe 1 (one_frame 3 2) \<noteq> CopyPlaybackFloatLe_spec 1 (one_frame 3 2)"
    using f32_playback_capture_channels [THEN conjunct2, THEN conjunct2, THEN spec, THEN spec,
        THEN mp, of 3 2, THEN conjunct1]
    by simp
  from a b one_frame_1_2_le one_frame_1_2_le_spec e one_frame_3_2_le g show ?thesis
    by blast
qed

subsection \<open>Encoding and decoding a period\<close>

lemma capture_steps_Some:
  assumes "\<forall>(f, c)\<in>set ixs. c < length buffers \<and> f < length (buffers ! c)"
    and "p + k * length ixs \<le> length raw"
    and "distinct ixs"
  shows "\<exists>b'. capture_steps body k raw ixs p buffers = Some b' \<and>
    (\<forall>i<length ixs. b' ! snd (ixs ! i) ! fst (ixs ! i) = body (take k (drop (p + k * i) raw)))"
proof -
  have "\<exists>b'. capture_steps body k raw ixs p buffers = Some b' \<and>
    length b' = length buffers \<and> (\<forall>c. length (b' ! c) = length (buffers ! c)) \<and>
    (\<forall>i<length ixs. b' ! snd (ixs ! i) ! fst (ixs ! i) = body (take k (drop (p + k * i) raw))) \<and>
    (\<forall>f c. (f, c) \<notin> set ixs \<longrightarrow> b' ! c ! f = buffers ! c ! f)"
    using assms
  proof (induction ixs arbitrary: p buffers)
    case Nil
    then show ?case by simp
  next
    case (Cons ix ixs)
    obtain f c where ix: "ix = (f, c)" by (cases ix)
    let ?v = "body (take k (drop p raw))"
    let ?b1 = "buffers[c := (buffers ! c)[f := ?v]]"
    from Cons.prems(1) ix have r: "c < length buffers" "f < length (buffers ! c)" by auto
    from Cons.prems(2) have pk: "p + k \<le> length raw" by simp
    have l1: "length ?b1 = length buffers" by simp
    have l2: "length (?b1 ! c') = length (buffers ! c')" for c'
      by (cases "c' = c") (simp_all add: nth_list_update_if)
    have step: "capture_steps body k raw (ix # ixs) p buffers = capture_steps body k raw ixs (p + k) ?b1"
      using r pk by (simp add: ix)
    have "\<exists>b'. capture_steps body k raw ixs (p + k) ?b1 = Some b' \<and>
      length b' = length ?b1 \<and> (\<forall>c. length (b' ! c) = length (?b1 ! c)) \<and>
      (\<forall>i<length ixs. b' ! snd (ixs ! i) ! fst (ixs ! i) = body (take k (drop (p + k + k * i) raw))) \<and>
      (\<forall>f c. (f, c) \<notin> set ixs \<longrightarrow> b' ! c ! f = ?b1 ! c ! f)"
    proof (rule Cons.IH)
      show "\<forall>(f, c)\<in>set ixs. c < length ?b1 \<and> f < length (?b1 ! c)"
        using Cons.prems(1) l1 l2 by auto
      show "p + k + k * length ixs \<le> length raw" using Cons.prems(2) by (simp add: algebra_simps)
      show "distinct ixs" using Cons.prems(3) by simp
    qed
    then obtain b' where b': "capture_steps body k raw ixs (p + k) ?b1 = Some b'"
      "length b' = length ?b1" "\<forall>c. length (b' ! c) = length (?b1 ! c)"
      "\<forall>i<length ixs. b' ! snd (ixs ! i) ! fst (ixs ! i) = body (take k (drop (p + k + k * i) raw))"
      "\<forall>f c. (f, c) \<notin> set ixs \<longrightarrow> b' ! c ! f = ?b1 ! c ! f"
      by blast
    have n: "(f, c) \<notin> set ixs" using Cons.prems(3) ix by simp
    have h: "b' ! c ! f = ?v" using b'(5) n r by simp
    have a: "\<forall>i<length (ix # ixs).
        b' ! snd ((ix # ixs) ! i) ! fst ((ix # ixs) ! i) = body (take k (drop (p + k * i) raw))"
    proof (intro allI impI)
      fix i assume i: "i < length (ix # ixs)"
      show "b' ! snd ((ix # ixs) ! i) ! fst ((ix # ixs) ! i) = body (take k (drop (p + k * i) raw))"
      proof (cases i)
        case 0
        then show ?thesis using h by (simp add: ix)
      next
        case (Suc j)
        with i have "j < length ixs" by simp
        with b'(4) have "b' ! snd (ixs ! j) ! fst (ixs ! j) = body (take k (drop (p + k + k * j) raw))"
          by blast
        then show ?thesis by (simp add: Suc algebra_simps)
      qed
    qed
    have u: "\<forall>f' c'. (f', c') \<notin> set (ix # ixs) \<longrightarrow> b' ! c' ! f' = buffers ! c' ! f'"
    proof (intro allI impI)
      fix f' c' assume m: "(f', c') \<notin> set (ix # ixs)"
      then have "(f', c') \<notin> set ixs" and ne: "c' \<noteq> c \<or> f' \<noteq> f" by (auto simp add: ix)
      with b'(5) have "b' ! c' ! f' = ?b1 ! c' ! f'" by blast
      also have "\<dots> = buffers ! c' ! f'"
        using ne by (cases "c' = c") (auto simp add: nth_list_update_if)
      finally show "b' ! c' ! f' = buffers ! c' ! f'" .
    qed
    show ?case unfolding step using b'(1,2,3) l1 l2 a u by simp
  qed
  then show ?thesis by blast
qed

lemma concat_block:
  assumes "\<forall>b\<in>set bs. length b = k" "i < length bs"
  shows "take k (drop (k * i) (concat bs @ r)) = bs ! i"
  using assms
proof (induction bs arbitrary: i)
  case Nil
  then show ?case by simp
next
  case (Cons b bs)
  from Cons.prems(1) have lb: "length b = k" by simp
  show ?case
  proof (cases i)
    case 0
    then show ?thesis using lb by simp
  next
    case (Suc j)
    with Cons.prems have "take k (drop (k * j) (concat bs @ r)) = bs ! j"
      by (intro Cons.IH) simp_all
    then show ?thesis using lb by (simp add: Suc)
  qed
qed

lemma product_index:
  assumes "f < frames" "c < channels"
  shows "\<exists>i<length (List.product [0..<frames] [0..<channels]).
           List.product [0..<frames] [0..<channels] ! i = (f, c)"
proof -
  have "(f, c) \<in> set (List.product [0..<frames] [0..<channels])" using assms by simp
  then show ?thesis by (simp only: in_set_conv_nth)
qed

lemma loop_round_trip:
  assumes pb: "channels \<le> length pb" "\<forall>c<channels. frames \<le> length (pb ! c)"
    and cb: "channels \<le> length cb" "\<forall>c<channels. frames \<le> length (cb ! c)"
    and rp: "k * (frames * channels) \<le> length rawP"
    and en: "\<forall>c<channels. \<forall>f<frames.
               \<exists>p. enc (pb ! c ! f) = Some p \<and> length p = k \<and> P (dec p) (pb ! c ! f)"
  shows "\<exists>raw cb'. copy_playback enc channels frames pb rawP = Some raw \<and>
           copy_capture dec k channels frames
             (take (k * (frames * channels)) raw @ drop (k * (frames * channels)) rawC) cb = Some cb' \<and>
           (\<forall>c<channels. \<forall>f<frames. P (cb' ! c ! f) (pb ! c ! f))"
proof -
  let ?ixs = "List.product [0..<frames] [0..<channels]"
  let ?g = "\<lambda>(f, c). the (enc (pb ! c ! f))"
  let ?X = "concat (map ?g ?ixs)"
  let ?n = "k * (frames * channels)"
  have len: "length ?ixs = frames * channels" by simp
  have blocks: "\<forall>b\<in>set (map ?g ?ixs). length b = k"
    using en by fastforce
  have lX: "length ?X = ?n"
  proof -
    have "map length (map ?g ?ixs) = replicate (length ?ixs) k"
      using blocks by (intro replicate_eqI) auto
    then have "length ?X = sum_list (replicate (length ?ixs) k)"
      by (simp only: length_concat)
    then show ?thesis by (simp add: sum_list_replicate)
  qed
  have "playback_steps enc pb ?ixs 0 rawP =
      Some (take 0 rawP @ ?X @ drop (0 + k * length ?ixs) rawP)"
  proof (rule playback_steps_Some)
    show "\<forall>(f, c)\<in>set ?ixs. c < length pb \<and> f < length (pb ! c) \<and>
        (\<exists>bs. enc (pb ! c ! f) = Some bs \<and> length bs = k)"
      using pb en by fastforce
    show "0 + k * length ?ixs \<le> length rawP" using rp by simp
  qed
  then have play: "copy_playback enc channels frames pb rawP = Some (?X @ drop ?n rawP)"
    by (simp add: copy_playback_def)
  let ?raw = "?X @ drop ?n rawP"
  let ?rawC = "take ?n ?raw @ drop ?n rawC"
  have rc: "?rawC = ?X @ drop ?n rawC" using lX by simp
  have "\<exists>b'. capture_steps dec k ?rawC ?ixs 0 cb = Some b' \<and>
    (\<forall>i<length ?ixs. b' ! snd (?ixs ! i) ! fst (?ixs ! i) = dec (take k (drop (0 + k * i) ?rawC)))"
  proof (rule capture_steps_Some)
    show "\<forall>(f, c)\<in>set ?ixs. c < length cb \<and> f < length (cb ! c)"
      using cb by fastforce
    show "0 + k * length ?ixs \<le> length ?rawC" unfolding rc using lX by simp
    show "distinct ?ixs" by (simp add: distinct_product)
  qed
  then obtain cb' where cap: "capture_steps dec k ?rawC ?ixs 0 cb = Some cb'"
    and val: "\<forall>i<length ?ixs. cb' ! snd (?ixs ! i) ! fst (?ixs ! i) = dec (take k (drop (k * i) ?rawC))"
    by auto
  have "\<forall>c<channels. \<forall>f<frames. P (cb' ! c ! f) (pb ! c ! f)"
  proof (intro allI impI)
    fix c f assume c: "c < channels" and f: "f < frames"
    from product_index [OF f c] obtain i where i: "i < length ?ixs" "?ixs ! i = (f, c)" by blast
    from en c f obtain p where p: "enc (pb ! c ! f) = Some p" "P (dec p) (pb ! c ! f)" by blast
    have "take k (drop (k * i) (concat (map ?g ?ixs) @ drop ?n rawC)) = map ?g ?ixs ! i"
      using blocks i(1) by (intro concat_block) simp_all
    also have "\<dots> = p" using i p(1) by simp
    finally have "take k (drop (k * i) ?rawC) = p" unfolding rc .
    with val i have "cb' ! c ! f = dec p" by (metis fst_conv snd_conv)
    with p(2) show "P (cb' ! c ! f) (pb ! c ! f)" by simp
  qed
  with play cap show ?thesis by (simp add: copy_capture_def)
qed

lemma encode_decode_lift:
  fixes d :: "'f audio_buffers"
  assumes co: "copyOut frames d = playback_into enc (playbackChannels d) frames d"
    and ci: "\<And>d'. copyIn frames d' = capture_into dec k (captureChannels d') frames d'"
    and al: "allocated k frames d" and eq: "captureChannels d = playbackChannels d"
    and en: "\<forall>c<playbackChannels d. \<forall>f<frames.
               \<exists>p. enc (playbackBuffers d ! c ! f) = Some p \<and> length p = k \<and>
                   P (dec p) (playbackBuffers d ! c ! f)"
  shows "\<exists>d2. encode_decode copyOut copyIn k frames d = Some d2 \<and>
           (\<forall>c<captureChannels d. \<forall>f<frames.
              P (captureBuffers d2 ! c ! f) (playbackBuffers d ! c ! f))"
proof -
  let ?ch = "playbackChannels d"
  let ?n = "k * (frames * ?ch)"
  from al eq have pb: "?ch \<le> length (playbackBuffers d)"
      "\<forall>c<?ch. frames \<le> length (playbackBuffers d ! c)"
    and cb: "?ch \<le> length (captureBuffers d)" "\<forall>c<?ch. frames \<le> length (captureBuffers d ! c)"
    and rp: "?n \<le> length (rawPlaybackBuffer d)"
    by (simp_all add: allocated_def mult_ac)
  from loop_round_trip [OF pb cb rp en, where rawC = "rawCaptureBuffer d"]
  obtain raw cb' where play: "copy_playback enc ?ch frames (playbackBuffers d) (rawPlaybackBuffer d) = Some raw"
    and cap: "copy_capture dec k ?ch frames (take ?n raw @ drop ?n (rawCaptureBuffer d)) (captureBuffers d) = Some cb'"
    and ok: "\<forall>c<?ch. \<forall>f<frames. P (cb' ! c ! f) (playbackBuffers d ! c ! f)"
    by blast
  let ?d1 = "d\<lparr>rawPlaybackBuffer := raw\<rparr>"
  have 1: "copyOut frames d = Some ?d1" using play by (simp add: co playback_into_def)
  have n: "k * captureChannels ?d1 * frames = ?n" using eq by (simp add: mult_ac)
  let ?d1' = "loopback (k * captureChannels ?d1 * frames) ?d1"
  have 2: "copyIn frames ?d1' = Some (?d1'\<lparr>captureBuffers := cb'\<rparr>)"
    unfolding ci n using cap eq by (simp add: capture_into_def loopback_def)
  have "encode_decode copyOut copyIn k frames d = Some (?d1'\<lparr>captureBuffers := cb'\<rparr>)"
    unfolding encode_decode_def 1 using 2 by simp
  moreover have "\<forall>c<captureChannels d. \<forall>f<frames.
      P (captureBuffers (?d1'\<lparr>captureBuffers := cb'\<rparr>) ! c ! f) (playbackBuffers d ! c ! f)"
    using ok eq by simp
  ultimately show ?thesis by blast
qed

lemma playback_body_length:
  "CopyPlaybackS16Le_body x = Some p \<Longrightarrow> length p = 2"
  "CopyPlaybackS16Be_body x = Some p \<Longrightarrow> length p = 2"
  "CopyPlaybackS32Le_body x = Some p \<Longrightarrow> length p = 4"
  "CopyPlaybackS32Be_body x = Some p \<Longrightarrow> length p = 4"
  "CopyPlaybackS24Le_body x = Some p \<Longrightarrow> length p = 4"
  "CopyPlaybackS24Be_body x = Some p \<Longrightarrow> length p = 4"
  "CopyPlaybackS24_3Le_body x = Some p \<Longrightarrow> length p = 3"
  "CopyPlaybackS24_3Be_body x = Some p \<Longrightarrow> length p = 3"
  by (auto simp add: CopyPlaybackS16Le_body_def CopyPlaybackS16Be_body_def CopyPlaybackS32Le_body_def
      CopyPlaybackS32Be_body_def CopyPlaybackS24Le_body_def CopyPlaybackS24Be_body_def
      CopyPlaybackS24_3Le_body_def CopyPlaybackS24_3Be_body_def put_int16_def put_int32_def)

lemma sample_round_trip_length:
  assumes "\<bar>x\<bar> \<le> 1 - 1 / 2 ^ 24"
  shows "\<exists>p. CopyPlaybackS16Le_body x = Some p \<and> length p = 2 \<and> \<bar>CopyCaptureS16Le_body p - x\<bar> < 1 / 2 ^ 14"
    and "\<exists>p. CopyPlaybackS16Be_body x = Some p \<and> length p = 2 \<and> \<bar>CopyCaptureS16Be_body p - x\<bar> < 1 / 2 ^ 14"
    and "\<exists>p. CopyPlaybackS32Le_body x = Some p \<and> length p = 4 \<and> \<bar>CopyCaptureS32Le_body p - x\<bar> < 4 / 10 ^ 5"
    and "\<exists>p. CopyPlaybackS32Be_body x = Some p \<and> length p = 4 \<and> \<bar>CopyCaptureS32Be_body p - x\<bar> < 4 / 10 ^ 5"
    and "\<exists>p. CopyPlaybackS24Le_body x = Some p \<and> length p = 4 \<and> \<bar>CopyCaptureS24Le_body p - x\<bar> < 4 / 10 ^ 5"
    and "\<exists>p. CopyPlaybackS24Be_body x = Some p \<and> length p = 4 \<and> \<bar>CopyCaptureS24Be_body p - x\<bar> < 4 / 10 ^ 5"
    and "\<exists>p. CopyPlaybackS24_3Le_body x = Some p \<and> length p = 3 \<and> \<bar>CopyCaptureS24_3Le_body p - x\<bar> < 4 / 10 ^ 5"
    and "\<exists>p. CopyPlaybackS24_3Be_body x = Some p \<and> length p = 3 \<and> \<bar>CopyCaptureS24_3Be_body p - x\<bar> < 4 / 10 ^ 5"
  using sample_round_trip [THEN conjunct1, THEN spec, THEN mp, OF assms] playback_body_length
  by blast+

lemma float_round_trip_length:
  "\<exists>p. CopyPlaybackFloatLe_body w = Some p \<and> length p = 4 \<and> CopyCaptureFloatLe_body p = w"
  "\<exists>p. CopyPlaybackFloatBe_body w = Some p \<and> length p = 4 \<and> CopyCaptureFloatBe_body p = w"
  by (simp_all add: CopyPlaybackFloatLe_body_def CopyCaptureFloatLe_body_def get_put_int32
      CopyPlaybackFloatBe_body_def CopyCaptureFloatBe_body_def EndianSwap_int32_twice put_int32_length)

lemma encode_decode_S16:
  fixes d :: "real audio_buffers"
  assumes "captureChannels d = playbackChannels d"
    and "\<forall>c<playbackChannels d. \<forall>f<frames. \<bar>playbackBuffers d ! c ! f\<bar> \<le> 1 - 1 / 2 ^ 24"
    and "allocated 2 frames d"
  shows "\<exists>d'. encode_decode CopyPlaybackS16Le CopyCaptureS16Le 2 frames d = Some d' \<and>
           (\<forall>c<captureChannels d. \<forall>f<frames.
              \<bar>captureBuffers d' ! c ! f - playbackBuffers d ! c ! f\<bar> < 1 / 2 ^ 14)"
    and "\<exists>d'. encode_decode CopyPlaybackS16Be CopyCaptureS16Be 2 frames d = Some d' \<and>
           (\<forall>c<captureChannels d. \<forall>f<frames.
              \<bar>captureBuffers d' ! c ! f - playbackBuffers d ! c ! f\<bar> < 1 / 2 ^ 14)"
proof -
  show "\<exists>d'. encode_decode CopyPlaybackS16Le CopyCaptureS16Le 2 frames d = Some d' \<and>
           (\<forall>c<captureChannels d. \<forall>f<frames.
              \<bar>captureBuffers d' ! c ! f - playbackBuffers d ! c ! f\<bar> < 1 / 2 ^ 14)"
    using assms(2) sample_round_trip_length(1)
    by (intro encode_decode_lift [where enc = CopyPlaybackS16Le_body and dec = CopyCaptureS16Le_body
          and P = "\<lambda>y x. \<bar>y - x\<bar> < 1 / 2 ^ 14", OF _ _ assms(3) assms(1)])
       (simp_all add: CopyPlaybackS16Le_def CopyCaptureS16Le_def)
  show "\<exists>d'. encode_decode CopyPlaybackS16Be CopyCaptureS16Be 2 frames d = Some d' \<and>
           (\<forall>c<captureChannels d. \<forall>f<frames.
              \<bar>captureBuffers d' ! c ! f - playbackBuffers d ! c ! f\<bar> < 1 / 2 ^ 14)"
    using assms(2) sample_round_trip_length(2)
    by (intro encode_decode_lift [where enc = CopyPlaybackS16Be_body and dec = CopyCaptureS16Be_body
          and P = "\<lambda>y x. \<bar>y - x\<bar> < 1 / 2 ^ 14", OF _ _ assms(3) assms(1)])
       (simp_all add: CopyPlaybackS16Be_def CopyCaptureS16Be_def)
qed

lemma encode_decode_S32_S24:
  fixes d :: "real audio_buffers"
  assumes "captureChannels d = playbackChannels d"
    and "\<forall>c<playbackChannels d. \<forall>f<frames. \<bar>playbackBuffers d ! c ! f\<bar> \<le> 1 - 1 / 2 ^ 24"
    and "allocated 4 frames d"
  shows "\<exists>d'. encode_decode CopyPlaybackS32Le CopyCaptureS32Le 4 frames d = Some d' \<and>
           (\<forall>c<captureChannels d. \<forall>f<frames.
              \<bar>captureBuffers d' ! c ! f - playbackBuffers d ! c ! f\<bar> < 4 / 10 ^ 5)"
    and "\<exists>d'. encode_decode CopyPlaybackS32Be CopyCaptureS32Be 4 frames d = Some d' \<and>
           (\<forall>c<captureChannels d. \<forall>f<frames.
              \<bar>captureBuffers d' ! c ! f - playbackBuffers d ! c ! f\<bar> < 4 / 10 ^ 5)"
    and "\<exists>d'. encode_decode CopyPlaybackS24Le CopyCaptureS24Le 4 frames d = Some d' \<and>
           (\<forall>c<captureChannels d. \<forall>f<frames.
              \<bar>captureBuffers d' ! c ! f - playbackBuffers d ! c ! f\<bar> < 4 / 10 ^ 5)"
    and "\<exists>d'. encode_decode CopyPlaybackS24Be CopyCaptureS24Be 4 frames d = Some d' \<and>
           (\<forall>c<captureChannels d. \<forall>f<frames.
              \<bar>captureBuffers d' ! c ! f - playbackBuffers d ! c ! f\<bar> < 4 / 10 ^ 5)"
proof -
  show "\<exists>d'. encode_decode CopyPlaybackS32Le CopyCaptureS32Le 4 frames d = Some d' \<and>
           (\<forall>c<captureChannels d. \<forall>f<frames.
              \<bar>captureBuffers d' ! c ! f - playbackBuffers d ! c ! f\<bar> < 4 / 10 ^ 5)"
    using assms(2) sample_round_trip_length(3)
    by (intro encode_decode_lift [where enc = CopyPlaybackS32Le_body and dec = CopyCaptureS32Le_body
          and P = "\<lambda>y x. \<bar>y - x\<bar> < 4 / 10 ^ 5", OF _ _ assms(3) assms(1)])
       (simp_all add: CopyPlaybackS32Le_def CopyCaptureS32Le_def)
  show "\<exists>d'. encode_decode CopyPlaybackS32Be CopyCaptureS32Be 4 frames d = Some d' \<and>
           (\<forall>c<captureChannels d. \<forall>f<frames.
              \<bar>captureBuffers d' ! c ! f - playbackBuffers d ! c ! f\<bar> < 4 / 10 ^ 5)"
    using assms(2) sample_round_trip_length(4)
    by (intro encode_decode_lift [where enc = CopyPlaybackS32Be_body and dec = CopyCaptureS32Be_body
          and P = "\<lambda>y x. \<bar>y - x\<bar> < 4 / 10 ^ 5", OF _ _ assms(3) assms(1)])
       (simp_all add: CopyPlaybackS32Be_def CopyCaptureS32Be_def)
  show "\<exists>d'. encode_decode CopyPlaybackS24Le CopyCaptureS24Le 4 frames d = Some d' \<and>
           (\<forall>c<captureChannels d. \<forall>f<frames.
              \<bar>captureBuffers d' ! c ! f - playbackBuffers d ! c ! f\<bar> < 4 / 10 ^ 5)"
    using assms(2) sample_round_trip_length(5)
    by (intro encode_decode_lift [where enc = CopyPlaybackS24Le_body and dec = CopyCaptureS24Le_body
          and P = "\<lambda>y x. \<bar>y - x\<bar> < 4 / 10 ^ 5", OF _ _ assms(3) assms(1)])
       (simp_all add: CopyPlaybackS24Le_def CopyCaptureS24Le_def)
  show "\<exists>d'. encode_decode CopyPlaybackS24Be CopyCaptureS24Be 4 frames d = Some d' \<and>
           (\<forall>c<captureChannels d. \<forall>f<frames.
              \<bar>captureBuffers d' ! c ! f - playbackBuffers d ! c ! f\<bar> < 4 / 10 ^ 5)"
    using assms(2) sample_round_trip_length(6)
    by (intro encode_decode_lift [where enc = CopyPlaybackS24Be_body and dec = CopyCaptureS24Be_body
          and P = "\<lambda>y x. \<bar>y - x\<bar> < 4 / 10 ^ 5", OF _ _ assms(3) assms(1)])
       (simp_all add: CopyPlaybackS24Be_def CopyCaptureS24Be_def)
qed

lemma encode_decode_S24_3:
  fixes d :: "real audio_buffers"
  assumes "captureChannels d = playbackChannels d"
    and "\<forall>c<playbackChannels d. \<forall>f<frames. \<bar>playbackBuffers d ! c ! f\<bar> \<le> 1 - 1 / 2 ^ 24"
    and "allocated 3 frames d"
  shows "\<exists>d'. encode_decode CopyPlaybackS24_3Le CopyCaptureS24_3Le 3 frames d = Some d' \<and>
           (\<forall>c<captureChannels d. \<forall>f<frames.
              \<bar>captureBuffers d' ! c ! f - playbackBuffers d ! c ! f\<bar> < 4 / 10 ^ 5)"
    and "\<exists>d'. encode_decode CopyPlaybackS24_3Be CopyCaptureS24_3Be 3 frames d = Some d' \<and>
           (\<forall>c<captureChannels d. \<forall>f<frames.
              \<bar>captureBuffers d' ! c ! f - playbackBuffers d ! c ! f\<bar> < 4 / 10 ^ 5)"
proof -
  show "\<exists>d'. encode_decode CopyPlaybackS24_3Le CopyCaptureS24_3Le 3 frames d = Some d' \<and>
           (\<forall>c<captureChannels d. \<forall>f<frames.
              \<bar>captureBuffers d' ! c ! f - playbackBuffers d ! c ! f\<bar> < 4 / 10 ^ 5)"
    using assms(2) sample_round_trip_length(7)
    by (intro encode_decode_lift [where enc = CopyPlaybackS24_3Le_body and dec = CopyCaptureS24_3Le_body
          and P = "\<lambda>y x. \<bar>y - x\<bar> < 4 / 10 ^ 5", OF _ _ assms(3) assms(1)])
       (simp_all add: CopyPlaybackS24_3Le_def CopyCaptureS24_3Le_def)
  show "\<exists>d'. encode_decode CopyPlaybackS24_3Be CopyCaptureS24_3Be 3 frames d = Some d' \<and>
           (\<forall>c<captureChannels d. \<forall>f<frames.
              \<bar>captureBuffers d' ! c ! f - playbackBuffers d ! c ! f\<bar> < 4 / 10 ^ 5)"
    using assms(2) sample_round_trip_length(8)
    by (intro encode_decode_lift [where enc = CopyPlaybackS24_3Be_body and dec = CopyCaptureS24_3Be_body
          and P = "\<lambda>y x. \<bar>y - x\<bar> < 4 / 10 ^ 5", OF _ _ assms(3) assms(1)])
       (simp_all add: CopyPlaybackS24_3Be_def CopyCaptureS24_3Be_def)
qed

lemma encode_decode_Float:
  fixes d :: "(32 word) audio_buffers"
  assumes "captureChannels d = playbackChannels d" and "allocated 4 frames d"
  shows "\<exists>d'. encode_decode CopyPlaybackFloatLe CopyCaptureFloatLe 4 frames d = Some d' \<and>
           (\<forall>c<captureChannels d. \<forall>f<frames. captureBuffers d' ! c ! f = playbackBuffers d ! c ! f)"
    and "\<exists>d'. encode_decode CopyPlaybackFloatBe CopyCaptureFloatBe 4 frames d = Some d' \<and>
           (\<forall>c<captureChannels d. \<forall>f<frames. captureBuffers d' ! c ! f = playbackBuffers d ! c ! f)"
proof -
  show "\<exists>d'. encode_decode CopyPlaybackFloatLe CopyCaptureFloatLe 4 frames d = Some d' \<and>
           (\<forall>c<captureChannels d. \<forall>f<frames. captureBuffers d' ! c ! f = playbackBuffers d ! c ! f)"
    using float_round_trip_length(1) assms(1)
    by (intro encode_decode_lift [where enc = CopyPlaybackFloatLe_body and dec = CopyCaptureFloatLe_body
          and P = "\<lambda>y x. y = x", OF _ _ assms(2) assms(1)])
       (simp_all add: CopyPlaybackFloatLe_def CopyCaptureFloatLe_def)
  show "\<exists>d'. encode_decode CopyPlaybackFloatBe CopyCaptureFloatBe 4 frames d = Some d' \<and>
           (\<forall>c<captureChannels d. \<forall>f<frames. captureBuffers d' ! c ! f = playbackBuffers d ! c ! f)"
    using float_round_trip_length(2) assms(1)
    by (intro encode_decode_lift [where enc = CopyPlaybackFloatBe_body and dec = CopyCaptureFloatBe_body
          and P = "\<lambda>y x. y = x", OF _ _ assms(2) assms(1)])
       (simp_all add: CopyPlaybackFloatBe_def CopyCaptureFloatBe_def)
qed

lemma ulp32_half_scale: "ulp32 (32767 / 2) = 1 / 2 ^ 10"
  by (simp add: ulp32_def denorm_min_def eval_nat_numeral)

lemma playback_S16Le_half: "CopyPlaybackS16Le_body (1 / 2) = Some [0xFF, 0x3F]"
proof -
  have m: "fmul scale_S16 (clamp1 (1 / 2)) = 32767 / 2"
    by (simp add: fmul_def scale_S16_eq clamp1_def round_f32_def round_even_def ulp32_half_scale Let_def)
  have p: "put_int16 16383 = [0xFF, 0x3F]" by (simp add: put_int16_def drop_bit_eq_div)
  show ?thesis
    by (simp add: CopyPlaybackS16Le_body_def m int16_of_float_def truncate_int_def p)
qed

lemma capture_S16Le_half: "CopyCaptureS16Le_body [0xFF, 0x3F] = 16383 / 32768"
proof -
  have g: "get_int16 [0xFF, 0x3F] = 16383" by (simp add: get_int16_def push_bit_eq_mult)
  show ?thesis using dec_S16 [of 16383] by (simp add: CopyCaptureS16Le_body_def g)
qed

lemma encode_decode_S16Le_half:
  "encode_decode CopyPlaybackS16Le CopyCaptureS16Le 2 1
     \<lparr>captureChannels = 1, playbackChannels = 1, captureBuffers = [[0]], playbackBuffers = [[1 / 2 :: real]],
        rawCaptureBuffer = [0, 0], rawPlaybackBuffer = [0, 0]\<rparr> =
   Some \<lparr>captureChannels = 1, playbackChannels = 1, captureBuffers = [[16383 / 32768]],
         playbackBuffers = [[1 / 2]], rawCaptureBuffer = [0xFF, 0x3F],
         rawPlaybackBuffer = [0xFF, 0x3F]\<rparr>"
  by (simp add: encode_decode_def CopyPlaybackS16Le_def CopyCaptureS16Le_def playback_into_def
      capture_into_def copy_playback_def copy_capture_def loopback_def playback_S16Le_half
      capture_S16Le_half)

text \<open>
  Claim C2 as stated fails for the 16-bit formats. The sample 64879/65536, a binary32
  value inside the range, is encoded by \<open>CopyPlaybackS16Le\<close> as 32438 (the product
  with 32767 rounds to 16608517/512 and is truncated) and decoded as 32438/32768: the
  error is 3/65536, more than \<open>2 ^ -15\<close>.
\<close>

theorem codec_round_trip_counterexample:
  "round_f32 (64879 / 65536) = 64879 / 65536 \<and>
   \<bar>64879 / 65536 :: real\<bar> \<le> 1 - 1 / 2 ^ 24 \<and>
   CopyPlaybackS16Le_body (64879 / 65536) = Some [0xB6, 0x7E] \<and>
   CopyCaptureS16Le_body [0xB6, 0x7E] = 32438 / 32768 \<and>
   \<not> \<bar>32438 / 32768 - 64879 / 65536 :: real\<bar> < 1 / 2 ^ 15"
proof (intro conjI)
  show "round_f32 (64879 / 65536) = 64879 / 65536"
    by (simp add: round_f32_def ulp32_cx1 round_even_def)
  show "\<bar>64879 / 65536 :: real\<bar> \<le> 1 - 1 / 2 ^ 24" by simp
  have m: "fmul scale_S16 (clamp1 (64879 / 65536)) = 16608517 / 512"
    by (simp add: fmul_def scale_S16_eq clamp1_def round_f32_def round_even_def ulp32_cx2 Let_def)
  have p: "put_int16 32438 = [0xB6, 0x7E]" by (simp add: put_int16_def drop_bit_eq_div)
  show "CopyPlaybackS16Le_body (64879 / 65536) = Some [0xB6, 0x7E]"
    by (simp add: CopyPlaybackS16Le_body_def m int16_of_float_def truncate_int_def p)
  have g: "get_int16 [0xB6, 0x7E] = 32438" by (simp add: get_int16_def push_bit_eq_mult)
  show "CopyCaptureS16Le_body [0xB6, 0x7E] = 32438 / 32768"
    using dec_S16 [of 32438] by (simp add: CopyCaptureS16Le_body_def g)
  show "\<not> \<bar>32438 / 32768 - 64879 / 65536 :: real\<bar> < 1 / 2 ^ 15" by simp
qed

text \<open>
  Claim C2, amended (codec round trip). For every supported format, in both byte orders,
  and all buffers allocated for that format with as many capture as playback channels:
  when every sample \<open>x\<close> of the period has \<open>\<bar>x\<bar> \<le> 1 - 2 ^ -24\<close> (the largest \<open>float\<close> below
  1), encoding the period and decoding the result is defined, and every decoded sample
  differs from the one encoded by less than \<open>2 ^ -14\<close> for the 16-bit formats and by less
  than \<open>4 / 10 ^ 5\<close> for the 24-bit and 32-bit integer formats. For the \<open>F32\<close> formats the
  decoded samples have the bits of the encoded ones, whatever they are. The same holds
  sample by sample, for the conversions of a single sample.
\<close>

theorem codec_round_trip:
  "(\<forall>frames (d :: real audio_buffers).
      captureChannels d = playbackChannels d \<and>
      (\<forall>c<playbackChannels d. \<forall>f<frames. \<bar>playbackBuffers d ! c ! f\<bar> \<le> 1 - 1 / 2 ^ 24) \<longrightarrow>
      (allocated 2 frames d \<longrightarrow>
         (\<exists>d'. encode_decode CopyPlaybackS16Le CopyCaptureS16Le 2 frames d = Some d' \<and>
            (\<forall>c<captureChannels d. \<forall>f<frames.
               \<bar>captureBuffers d' ! c ! f - playbackBuffers d ! c ! f\<bar> < 1 / 2 ^ 14)) \<and>
         (\<exists>d'. encode_decode CopyPlaybackS16Be CopyCaptureS16Be 2 frames d = Some d' \<and>
            (\<forall>c<captureChannels d. \<forall>f<frames.
               \<bar>captureBuffers d' ! c ! f - playbackBuffers d ! c ! f\<bar> < 1 / 2 ^ 14))) \<and>
      (allocated 4 frames d \<longrightarrow>
         (\<exists>d'. encode_decode CopyPlaybackS32Le CopyCaptureS32Le 4 frames d = Some d' \<and>
            (\<forall>c<captureChannels d. \<forall>f<frames.
               \<bar>captureBuffers d' ! c ! f - playbackBuffers d ! c ! f\<bar> < 4 / 10 ^ 5)) \<and>
         (\<exists>d'. encode_decode CopyPlaybackS32Be CopyCaptureS32Be 4 frames d = Some d' \<and>
            (\<forall>c<captureChannels d. \<forall>f<frames.
               \<bar>captureBuffers d' ! c ! f - playbackBuffers d ! c ! f\<bar> < 4 / 10 ^ 5)) \<and>
         (\<exists>d'. encode_decode CopyPlaybackS24Le CopyCaptureS24Le 4 frames d = Some d' \<and>
            (\<forall>c<captureChannels d. \<forall>f<frames.
               \<bar>captureBuffers d' ! c ! f - playbackBuffers d ! c ! f\<bar> < 4 / 10 ^ 5)) \<and>
         (\<exists>d'. encode_decode CopyPlaybackS24Be CopyCaptureS24Be 4 frames d = Some d' \<and>
            (\<forall>c<captureChannels d. \<forall>f<frames.
               \<bar>captureBuffers d' ! c ! f - playbackBuffers d ! c ! f\<bar> < 4 / 10 ^ 5))) \<and>
      (allocated 3 frames d \<longrightarrow>
         (\<exists>d'. encode_decode CopyPlaybackS24_3Le CopyCaptureS24_3Le 3 frames d = Some d' \<and>
            (\<forall>c<captureChannels d. \<forall>f<frames.
               \<bar>captureBuffers d' ! c ! f - playbackBuffers d ! c ! f\<bar> < 4 / 10 ^ 5)) \<and>
         (\<exists>d'. encode_decode CopyPlaybackS24_3Be CopyCaptureS24_3Be 3 frames d = Some d' \<and>
            (\<forall>c<captureChannels d. \<forall>f<frames.
               \<bar>captureBuffers d' ! c ! f - playbackBuffers d ! c ! f\<bar> < 4 / 10 ^ 5)))) \<and>
   (\<forall>frames (d :: (32 word) audio_buffers).
      captureChannels d = playbackChannels d \<and> allocated 4 frames d \<longrightarrow>
         (\<exists>d'. encode_decode CopyPlaybackFloatLe CopyCaptureFloatLe 4 frames d = Some d' \<and>
            (\<forall>c<captureChannels d. \<forall>f<frames.
               captureBuffers d' ! c ! f = playbackBuffers d ! c ! f)) \<and>
         (\<exists>d'. encode_decode CopyPlaybackFloatBe CopyCaptureFloatBe 4 frames d = Some d' \<and>
            (\<forall>c<captureChannels d. \<forall>f<frames.
               captureBuffers d' ! c ! f = playbackBuffers d ! c ! f))) \<and>
   (\<forall>x. \<bar>x\<bar> \<le> 1 - 1 / 2 ^ 24 \<longrightarrow>
      (\<exists>p. CopyPlaybackS16Le_body x = Some p \<and> \<bar>CopyCaptureS16Le_body p - x\<bar> < 1 / 2 ^ 14) \<and>
      (\<exists>p. CopyPlaybackS16Be_body x = Some p \<and> \<bar>CopyCaptureS16Be_body p - x\<bar> < 1 / 2 ^ 14) \<and>
      (\<exists>p. CopyPlaybackS32Le_body x = Some p \<and> \<bar>CopyCaptureS32Le_body p - x\<bar> < 4 / 10 ^ 5) \<and>
      (\<exists>p. CopyPlaybackS32Be_body x = Some p \<and> \<bar>CopyCaptureS32Be_body p - x\<bar> < 4 / 10 ^ 5) \<and>
      (\<exists>p. CopyPlaybackS24Le_body x = Some p \<and> \<bar>CopyCaptureS24Le_body p - x\<bar> < 4 / 10 ^ 5) \<and>
      (\<exists>p. CopyPlaybackS24Be_body x = Some p \<and> \<bar>CopyCaptureS24Be_body p - x\<bar> < 4 / 10 ^ 5) \<and>
      (\<exists>p. CopyPlaybackS24_3Le_body x = Some p \<and> \<bar>CopyCaptureS24_3Le_body p - x\<bar> < 4 / 10 ^ 5) \<and>
      (\<exists>p. CopyPlaybackS24_3Be_body x = Some p \<and> \<bar>CopyCaptureS24_3Be_body p - x\<bar> < 4 / 10 ^ 5)) \<and>
   (\<forall>w. (\<exists>p. CopyPlaybackFloatLe_body w = Some p \<and> CopyCaptureFloatLe_body p = w) \<and>
        (\<exists>p. CopyPlaybackFloatBe_body w = Some p \<and> CopyCaptureFloatBe_body p = w))"
proof (intro conjI)
  show "\<forall>frames (d :: real audio_buffers).
      captureChannels d = playbackChannels d \<and>
      (\<forall>c<playbackChannels d. \<forall>f<frames. \<bar>playbackBuffers d ! c ! f\<bar> \<le> 1 - 1 / 2 ^ 24) \<longrightarrow>
      (allocated 2 frames d \<longrightarrow>
         (\<exists>d'. encode_decode CopyPlaybackS16Le CopyCaptureS16Le 2 frames d = Some d' \<and>
            (\<forall>c<captureChannels d. \<forall>f<frames.
               \<bar>captureBuffers d' ! c ! f - playbackBuffers d ! c ! f\<bar> < 1 / 2 ^ 14)) \<and>
         (\<exists>d'. encode_decode CopyPlaybackS16Be CopyCaptureS16Be 2 frames d = Some d' \<and>
            (\<forall>c<captureChannels d. \<forall>f<frames.
               \<bar>captureBuffers d' ! c ! f - playbackBuffers d ! c ! f\<bar> < 1 / 2 ^ 14))) \<and>
      (allocated 4 frames d \<longrightarrow>
         (\<exists>d'. encode_decode CopyPlaybackS32Le CopyCaptureS32Le 4 frames d = Some d' \<and>
            (\<forall>c<captureChannels d. \<forall>f<frames.
               \<bar>captureBuffers d' ! c ! f - playbackBuffers d ! c ! f\<bar> < 4 / 10 ^ 5)) \<and>
         (\<exists>d'. encode_decode CopyPlaybackS32Be CopyCaptureS32Be 4 frames d = Some d' \<and>
            (\<forall>c<captureChannels d. \<forall>f<frames.
               \<bar>captureBuffers d' ! c ! f - playbackBuffers d ! c ! f\<bar> < 4 / 10 ^ 5)) \<and>
         (\<exists>d'. encode_decode CopyPlaybackS24Le CopyCaptureS24Le 4 frames d = Some d' \<and>
            (\<forall>c<captureChannels d. \<forall>f<frames.
               \<bar>captureBuffers d' ! c ! f - playbackBuffers d ! c ! f\<bar> < 4 / 10 ^ 5)) \<and>
         (\<exists>d'. encode_decode CopyPlaybackS24Be CopyCaptureS24Be 4 frames d = Some d' \<and>
            (\<forall>c<captureChannels d. \<forall>f<frames.
               \<bar>captureBuffers d' ! c ! f - playbackBuffers d ! c ! f\<bar> < 4 / 10 ^ 5))) \<and>
      (allocated 3 frames d \<longrightarrow>
         (\<exists>d'. encode_decode CopyPlaybackS24_3Le CopyCaptureS24_3Le 3 frames d = Some d' \<and>
            (\<forall>c<captureChannels d. \<forall>f<frames.
               \<bar>captureBuffers d' ! c ! f - playbackBuffers d ! c ! f\<bar> < 4 / 10 ^ 5)) \<and>
         (\<exists>d'. encode_decode CopyPlaybackS24_3Be CopyCaptureS24_3Be 3 frames d = Some d' \<and>
            (\<forall>c<captureChannels d. \<forall>f<frames.
               \<bar>captureBuffers d' ! c ! f - playbackBuffers d ! c ! f\<bar> < 4 / 10 ^ 5)))"
  proof (intro allI impI)
    fix frames and d :: "real audio_buffers"
    assume a: "captureChannels d = playbackChannels d \<and>
      (\<forall>c<playbackChannels d. \<forall>f<frames. \<bar>playbackBuffers d ! c ! f\<bar> \<le> 1 - 1 / 2 ^ 24)"
    then have e: "captureChannels d = playbackChannels d"
      and r: "\<forall>c<playbackChannels d. \<forall>f<frames. \<bar>playbackBuffers d ! c ! f\<bar> \<le> 1 - 1 / 2 ^ 24"
      by blast+
    show "(allocated 2 frames d \<longrightarrow>
         (\<exists>d'. encode_decode CopyPlaybackS16Le CopyCaptureS16Le 2 frames d = Some d' \<and>
            (\<forall>c<captureChannels d. \<forall>f<frames.
               \<bar>captureBuffers d' ! c ! f - playbackBuffers d ! c ! f\<bar> < 1 / 2 ^ 14)) \<and>
         (\<exists>d'. encode_decode CopyPlaybackS16Be CopyCaptureS16Be 2 frames d = Some d' \<and>
            (\<forall>c<captureChannels d. \<forall>f<frames.
               \<bar>captureBuffers d' ! c ! f - playbackBuffers d ! c ! f\<bar> < 1 / 2 ^ 14))) \<and>
      (allocated 4 frames d \<longrightarrow>
         (\<exists>d'. encode_decode CopyPlaybackS32Le CopyCaptureS32Le 4 frames d = Some d' \<and>
            (\<forall>c<captureChannels d. \<forall>f<frames.
               \<bar>captureBuffers d' ! c ! f - playbackBuffers d ! c ! f\<bar> < 4 / 10 ^ 5)) \<and>
         (\<exists>d'. encode_decode CopyPlaybackS32Be CopyCaptureS32Be 4 frames d = Some d' \<and>
            (\<forall>c<captureChannels d. \<forall>f<frames.
               \<bar>captureBuffers d' ! c ! f - playbackBuffers d ! c ! f\<bar> < 4 / 10 ^ 5)) \<and>
         (\<exists>d'. encode_decode CopyPlaybackS24Le CopyCaptureS24Le 4 frames d = Some d' \<and>
            (\<forall>c<captureChannels d. \<forall>f<frames.
               \<bar>captureBuffers d' ! c ! f - playbackBuffers d ! c ! f\<bar> < 4 / 10 ^ 5)) \<and>
         (\<exists>d'. encode_decode CopyPlaybackS24Be CopyCaptureS24Be 4 frames d = Some d' \<and>
            (\<forall>c<captureChannels d. \<forall>f<frames.
               \<bar>captureBuffers d' ! c ! f - playbackBuffers d ! c ! f\<bar> < 4 / 10 ^ 5))) \<and>
      (allocated 3 frames d \<longrightarrow>
         (\<exists>d'. encode_decode CopyPlaybackS24_3Le CopyCaptureS24_3Le 3 frames d = Some d' \<and>
            (\<forall>c<captureChannels d. \<forall>f<frames.
               \<bar>captureBuffers d' ! c ! f - playbackBuffers d ! c ! f\<bar> < 4 / 10 ^ 5)) \<and>
         (\<exists>d'. encode_decode CopyPlaybackS24_3Be CopyCaptureS24_3Be 3 frames d = Some d' \<and>
            (\<forall>c<captureChannels d. \<forall>f<frames.
               \<bar>captureBuffers d' ! c ! f - playbackBuffers d ! c ! f\<bar> < 4 / 10 ^ 5)))"
      using encode_decode_S16 [OF e r] encode_decode_S32_S24 [OF e r] encode_decode_S24_3 [OF e r]
      by blast
  qed
  show "\<forall>frames (d :: (32 word) audio_buffers).
      captureChannels d = playbackChannels d \<and> allocated 4 frames d \<longrightarrow>
         (\<exists>d'. encode_decode CopyPlaybackFloatLe CopyCaptureFloatLe 4 frames d = Some d' \<and>
            (\<forall>c<captureChannels d. \<forall>f<frames.
               captureBuffers d' ! c ! f = playbackBuffers d ! c ! f)) \<and>
         (\<exists>d'. encode_decode CopyPlaybackFloatBe CopyCaptureFloatBe 4 frames d = Some d' \<and>
            (\<forall>c<captureChannels d. \<forall>f<frames.
               captureBuffers d' ! c ! f = playbackBuffers d ! c ! f))"
    using encode_decode_Float by blast
  show "\<forall>x. \<bar>x\<bar> \<le> 1 - 1 / 2 ^ 24 \<longrightarrow>
      (\<exists>p. CopyPlaybackS16Le_body x = Some p \<and> \<bar>CopyCaptureS16Le_body p - x\<bar> < 1 / 2 ^ 14) \<and>
      (\<exists>p. CopyPlaybackS16Be_body x = Some p \<and> \<bar>CopyCaptureS16Be_body p - x\<bar> < 1 / 2 ^ 14) \<and>
      (\<exists>p. CopyPlaybackS32Le_body x = Some p \<and> \<bar>CopyCaptureS32Le_body p - x\<bar> < 4 / 10 ^ 5) \<and>
      (\<exists>p. CopyPlaybackS32Be_body x = Some p \<and> \<bar>CopyCaptureS32Be_body p - x\<bar> < 4 / 10 ^ 5) \<and>
      (\<exists>p. CopyPlaybackS24Le_body x = Some p \<and> \<bar>CopyCaptureS24Le_body p - x\<bar> < 4 / 10 ^ 5) \<and>
      (\<exists>p. CopyPlaybackS24Be_body x = Some p \<and> \<bar>CopyCaptureS24Be_body p - x\<bar> < 4 / 10 ^ 5) \<and>
      (\<exists>p. CopyPlaybackS24_3Le_body x = Some p \<and> \<bar>CopyCaptureS24_3Le_body p - x\<bar> < 4 / 10 ^ 5) \<and>
      (\<exists>p. CopyPlaybackS24_3Be_body x = Some p \<and> \<bar>CopyCaptureS24_3Be_body p - x\<bar> < 4 / 10 ^ 5)"
    using sample_round_trip by (rule conjunct1)
  show "\<forall>w. (\<exists>p. CopyPlaybackFloatLe_body w = Some p \<and> CopyCaptureFloatLe_body p = w) \<and>
        (\<exists>p. CopyPlaybackFloatBe_body w = Some p \<and> CopyCaptureFloatBe_body p = w)"
    using sample_round_trip by (rule conjunct2)
qed

theorem codec_round_trip_witness:
  "captureChannels \<lparr>captureChannels = 1, playbackChannels = 1, captureBuffers = [[0]], playbackBuffers = [[1 / 2 :: real]],
        rawCaptureBuffer = [0, 0], rawPlaybackBuffer = [0, 0]\<rparr> = playbackChannels \<lparr>captureChannels = 1, playbackChannels = 1, captureBuffers = [[0]], playbackBuffers = [[1 / 2 :: real]],
        rawCaptureBuffer = [0, 0], rawPlaybackBuffer = [0, 0]\<rparr> \<and>
   \<bar>1 / 2 :: real\<bar> \<le> 1 - 1 / 2 ^ 24 \<and>
   allocated 2 1 \<lparr>captureChannels = 1, playbackChannels = 1, captureBuffers = [[0]], playbackBuffers = [[1 / 2 :: real]],
        rawCaptureBuffer = [0, 0], rawPlaybackBuffer = [0, 0]\<rparr> \<and>
   encode_decode CopyPlaybackS16Le CopyCaptureS16Le 2 1 \<lparr>captureChannels = 1, playbackChannels = 1, captureBuffers = [[0]], playbackBuffers = [[1 / 2 :: real]],
        rawCaptureBuffer = [0, 0], rawPlaybackBuffer = [0, 0]\<rparr> =
     Some \<lparr>captureChannels = 1, playbackChannels = 1, captureBuffers = [[16383 / 32768]],
           playbackBuffers = [[1 / 2]], rawCaptureBuffer = [0xFF, 0x3F],
           rawPlaybackBuffer = [0xFF, 0x3F]\<rparr> \<and>
   \<bar>16383 / 32768 - 1 / 2 :: real\<bar> < 1 / 2 ^ 14 \<and>
   (\<exists>p. CopyPlaybackS16Le_body (1 / 2) = Some p \<and> \<bar>CopyCaptureS16Le_body p - 1 / 2\<bar> < 1 / 2 ^ 14) \<and>
   (\<exists>p. CopyPlaybackS24_3Be_body (1 / 2) = Some p \<and> \<bar>CopyCaptureS24_3Be_body p - 1 / 2\<bar> < 4 / 10 ^ 5) \<and>
   captureChannels (one_frame 1 1) = playbackChannels (one_frame 1 1) \<and>
   allocated 4 1 (one_frame 1 1) \<and>
   (\<exists>d'. encode_decode CopyPlaybackFloatLe CopyCaptureFloatLe 4 1 (one_frame 1 1) = Some d' \<and>
      captureBuffers d' ! 0 ! 0 = 0x3F800001)"
proof -
  let ?d = "\<lparr>captureChannels = 1, playbackChannels = 1, captureBuffers = [[0]], playbackBuffers = [[1 / 2 :: real]],
        rawCaptureBuffer = [0, 0], rawPlaybackBuffer = [0, 0]\<rparr>"
  have h: "captureChannels ?d = playbackChannels ?d \<and>
      (\<forall>c<playbackChannels ?d. \<forall>f<1. \<bar>playbackBuffers ?d ! c ! f\<bar> \<le> 1 - 1 / 2 ^ 24)"
    by simp
  have al: "allocated 2 1 ?d" by (simp add: allocated_def)
  have a: "\<bar>1 / 2 :: real\<bar> \<le> 1 - 1 / 2 ^ 24" by simp
  from codec_round_trip [THEN conjunct1, THEN spec, THEN spec, THEN mp, OF h,
      THEN conjunct1, THEN mp, OF al, THEN conjunct1]
  have "\<bar>16383 / 32768 - 1 / 2 :: real\<bar> < 1 / 2 ^ 14"
    by (simp add: encode_decode_S16Le_half)
  moreover note codec_round_trip [THEN conjunct2, THEN conjunct2, THEN conjunct1, THEN spec, THEN mp, OF a]
  moreover have h4: "captureChannels (one_frame 1 1) = playbackChannels (one_frame 1 1) \<and>
      allocated 4 1 (one_frame 1 1)"
    by (simp add: one_frame_def allocated_def)
  moreover from codec_round_trip [THEN conjunct2, THEN conjunct1, THEN spec, THEN spec, THEN mp,
      OF h4, THEN conjunct1]
  have "\<exists>d'. encode_decode CopyPlaybackFloatLe CopyCaptureFloatLe 4 1 (one_frame 1 1) = Some d' \<and>
      captureBuffers d' ! 0 ! 0 = 0x3F800001"
    by (simp add: one_frame_def)
  ultimately show ?thesis using h al a encode_decode_S16Le_half by blast
qed


section \<open>Properties of the stream configuration\<close>

lemma numberOfBuffers_requested [simp]:
  "requested_periods pcm (d\<lparr>sampleRate := r, bufferSize := b\<rparr>) = requested_periods pcm d"
  by (simp add: requested_periods_def Let_def)

text \<open>
  Claim C8 (periods negotiation). Whatever the library answers: when the number of
  periods that \<open>snd_pcm_hw_params_set_periods_near\<close> leaves is smaller than
  \<open>numberOfBuffers\<close>, the number requested by the caller, \<open>AlsaConfigureStream\<close> throws; when
  it returns, the number of periods it reports is the one the library left, and it is
  at least \<open>numberOfBuffers\<close>, which the call has not changed. The number passed to the
  library is never below \<open>numberOfBuffers\<close> either.
\<close>

theorem periods_negotiation:
  "(\<forall>pcm channels d.
      snd (hw_params_set_periods_near pcm (requested_periods pcm d)) < numberOfBuffers d \<longrightarrow>
      isl (AlsaConfigureStream pcm channels d)) \<and>
   (\<forall>pcm channels d d' channels' periods.
      AlsaConfigureStream pcm channels d = Inr (d', channels', periods) \<longrightarrow>
      numberOfBuffers d \<le> periods \<and>
      periods = snd (hw_params_set_periods_near pcm (requested_periods pcm d)) \<and>
      numberOfBuffers d' = numberOfBuffers d) \<and>
   (\<forall>pcm d. numberOfBuffers d \<le> requested_periods pcm d)"
proof (intro conjI allI impI)
  fix pcm :: alsa_pcm and channels :: "32 word" and d :: alsa_parameters
  assume "snd (hw_params_set_periods_near pcm (requested_periods pcm d)) < numberOfBuffers d"
  then show "isl (AlsaConfigureStream pcm channels d)"
    by (auto simp add: AlsaConfigureStream_def Let_def split: prod.splits sum.splits option.splits)
next
  fix pcm :: alsa_pcm and channels channels' periods :: "32 word" and d d' :: alsa_parameters
  assume a: "AlsaConfigureStream pcm channels d = Inr (d', channels', periods)"
  then show "numberOfBuffers d \<le> periods"
    by (auto simp add: AlsaConfigureStream_def Let_def split: prod.splits sum.splits option.splits if_splits)
  from a show "periods = snd (hw_params_set_periods_near pcm (requested_periods pcm d))"
    by (auto simp add: AlsaConfigureStream_def Let_def split: prod.splits sum.splits option.splits if_splits)
  from a show "numberOfBuffers d' = numberOfBuffers d"
    by (auto simp add: AlsaConfigureStream_def Let_def split: prod.splits sum.splits option.splits if_splits)
next
  fix pcm :: alsa_pcm and d :: alsa_parameters
  show "numberOfBuffers d \<le> requested_periods pcm d"
    by (simp add: requested_periods_def Let_def not_less)
qed

theorem periods_negotiation_witness:
  "snd (hw_params_set_periods_near (fixed_periods_pcm 2)
         (requested_periods (fixed_periods_pcm 2)
            \<lparr>bufferSize = 64, numberOfBuffers = 3, sampleRate = 48000\<rparr>)) < 3 \<and>
   AlsaConfigureStream (fixed_periods_pcm 2) 2
       \<lparr>bufferSize = 64, numberOfBuffers = 3, sampleRate = 48000\<rparr> =
     Inl (Got_smaller_periods 2 3) \<and>
   AlsaConfigureStream (fixed_periods_pcm 4) 2
       \<lparr>bufferSize = 64, numberOfBuffers = 3, sampleRate = 48000\<rparr> =
     Inr (\<lparr>bufferSize = 64, numberOfBuffers = 3, sampleRate = 48000\<rparr>, 2, 4) \<and>
   (3 :: 32 word) \<le> 4"
proof -
  let ?d = "\<lparr>bufferSize = 64, numberOfBuffers = 3, sampleRate = 48000\<rparr>"
  have a: "snd (hw_params_set_periods_near (fixed_periods_pcm 2)
         (requested_periods (fixed_periods_pcm 2) ?d)) < numberOfBuffers ?d"
    by (simp add: fixed_periods_pcm_def word_less_nat_alt)
  have b: "AlsaConfigureStream (fixed_periods_pcm 4) 2 ?d = Inr (?d, 2, 4)"
    by (simp add: AlsaConfigureStream_def fixed_periods_pcm_def find_channels_def
        requested_periods_def configure_software_def word_less_nat_alt)
  have c: "AlsaConfigureStream (fixed_periods_pcm 2) 2 ?d = Inl (Got_smaller_periods 2 3)"
    by (simp add: AlsaConfigureStream_def fixed_periods_pcm_def find_channels_def
        requested_periods_def configure_software_def word_less_nat_alt)
  from periods_negotiation [THEN conjunct1, THEN spec, THEN spec, THEN spec, THEN mp, OF a, of 2]
  have "isl (AlsaConfigureStream (fixed_periods_pcm 2) 2 ?d)" .
  moreover from periods_negotiation [THEN conjunct2, THEN conjunct1, THEN spec, THEN spec,
      THEN spec, THEN spec, THEN spec, THEN spec, THEN mp, OF b]
  have "(3 :: 32 word) \<le> 4" by simp
  ultimately show ?thesis using a b c by simp
qed

end
